theory Spec2Isabelle
  imports Complex_Main "HOL-Library.Sublist"
begin

section \<open>Common data model\<close>

text \<open>
  The backend is TypeScript. A JavaScript \<open>number\<close> is modelled as a \<^typ>\<open>real\<close> (the scoring
  formulas are read as exact arithmetic), a count or an array length as a \<^typ>\<open>nat\<close>, a
  \<open>Date\<close> as its \<open>getTime()\<close> value, an \<^typ>\<open>int\<close> of milliseconds. An optional field
  is an \<^typ>\<open>'a option\<close>, \<open>None\<close> standing for \<open>undefined\<close>.
\<close>

type_synonym date = int

text \<open>The fields of \<open>IDrama\<close> (types/drama.ts) that the services read.\<close>

record Drama =
  drama_id :: string
  title :: string
  description :: string
  category :: string
  tags :: "string list option"
  cast :: "string list option"
  rating :: real
  viewCount :: nat
  commentCount :: "nat option"
  favoriteCount :: "nat option"
  isHot :: bool
  isNewDrama :: bool
  updatedAt :: date

text \<open>\<open>Math.round\<close>: the nearest integer, a tie going up.\<close>

definition math_round :: "real \<Rightarrow> real" where
  "math_round x = of_int \<lfloor>x + 1 / 2\<rfloor>"

text \<open>\<open>x || 0\<close> on an optional count.\<close>

definition or_zero :: "nat option \<Rightarrow> nat" where
  "or_zero x = (case x of None \<Rightarrow> 0 | Some n \<Rightarrow> n)"

section \<open>RankingService (services/RecommendationService.ts)\<close>

datatype RankingType = DAILY | WEEKLY | MONTHLY | ALL_TIME

record Weights =
  w_viewCount :: real
  w_rating :: real
  w_commentCount :: real
  w_favoriteCount :: real

text \<open>
  \<open>calculateTimeDecay(updatedAt, type)\<close>. The source reads the clock with \<open>new Date()\<close>;
  the model takes that reading as \<open>now\<close>.
\<close>

definition calculateTimeDecay :: "date \<Rightarrow> date \<Rightarrow> RankingType \<Rightarrow> real" where
  "calculateTimeDecay now upd type =
     (let hoursDiff = (real_of_int now - real_of_int upd) / (1000 * 60 * 60) in
      case type of
        DAILY \<Rightarrow> max 0.5 (1 - hoursDiff / 48)
      | WEEKLY \<Rightarrow> max 0.7 (1 - hoursDiff / (7 * 24 * 2))
      | _ \<Rightarrow> 1)"

text \<open>The weight table of \<open>calculateRankingScore\<close> after its \<open>switch\<close>.\<close>

definition initial_weights :: Weights where
  "initial_weights =
     \<lparr>w_viewCount = 0.4, w_rating = 0.3, w_commentCount = 0.15, w_favoriteCount = 0.15\<rparr>"

definition short_term_weights :: "Weights \<Rightarrow> Weights" where
  "short_term_weights w =
     w\<lparr>w_viewCount := 0.5, w_commentCount := 0.2, w_favoriteCount := 0.2, w_rating := 0.1\<rparr>"

fun adjust_weights :: "RankingType \<Rightarrow> Weights \<Rightarrow> Weights" where
  "adjust_weights DAILY w = short_term_weights w"
| "adjust_weights WEEKLY w = short_term_weights w"
| "adjust_weights MONTHLY w = w"
| "adjust_weights ALL_TIME w =
     w\<lparr>w_rating := 0.4, w_favoriteCount := 0.3, w_viewCount := 0.2, w_commentCount := 0.1\<rparr>"

text \<open>The weighted sum of \<open>calculateRankingScore\<close>, before decay and boosts.\<close>

definition weighted_score :: "Drama \<Rightarrow> Weights \<Rightarrow> real" where
  "weighted_score drama weights =
     (let score = 0;
          score = score + log 10 (real (viewCount drama) + 1) * w_viewCount weights * 20;
          score = score + rating drama * w_rating weights * 10;
          score = score + log 10 (real (or_zero (commentCount drama)) + 1)
                    * w_commentCount weights * 15;
          score = score + log 10 (real (or_zero (favoriteCount drama)) + 1)
                    * w_favoriteCount weights * 15
      in score)"

definition calculateRankingScore :: "date \<Rightarrow> Drama \<Rightarrow> RankingType \<Rightarrow> real" where
  "calculateRankingScore now drama type =
     (let weights = adjust_weights type initial_weights;
          score = weighted_score drama weights;
          score = (if type = DAILY \<or> type = WEEKLY
                   then score * calculateTimeDecay now (updatedAt drama) type else score);
          score = (if isHot drama then score * 1.1 else score);
          score = (if isNewDrama drama then score * 1.05 else score)
      in math_round (score * 100) / 100)"



text \<open>
  Errors the services throw, as values. \<open>StoreError\<close> is a rejected database call,
  \<open>CacheError\<close> the \<open>Redis client not connected\<close> error of \<open>getClient\<close>; \<open>SignError\<close>,
  \<open>SessionError\<close> and \<open>SaveError\<close> are what \<open>jwt.sign\<close>, \<open>UserSessionModel.create\<close> and
  \<open>user.save()\<close> throw.
\<close>

datatype error = StoreError | CacheError | DeleteBlocked string nat | LockedOut
  | InvalidCredentials | AccountDisabled | TokenInvalid | SignError | SessionError | SaveError

datatype UserStatus = ACTIVE | INACTIVE | BANNED | PENDING

record User =
  user_id :: string
  email :: string
  password :: string
  status :: UserStatus
  lastLoginAt :: "date option"

record Category =
  category_name :: string
  isActive :: bool

text \<open>
  The document store: the drama and user collections in their natural order, the category
  collection keyed by \<open>_id\<close>. \<open>store_up\<close> is false when the database rejects a call,
  which the services see as a thrown error.
\<close>

record Store =
  store_up :: bool
  dramas :: "Drama list"
  categories :: "string \<rightharpoonup> Category"
  users :: "User list"



record Metrics =
  m_viewCount :: nat
  m_rating :: real
  m_commentCount :: nat
  m_favoriteCount :: nat

record ScoredDrama =
  sd_drama :: Drama
  sd_score :: real
  sd_metrics :: Metrics

record RankingItem =
  rank :: nat
  ri_drama :: Drama
  ri_score :: real
  change :: int
  ri_metrics :: Metrics



definition ranking_item :: "nat \<times> ScoredDrama \<Rightarrow> RankingItem" where
  "ranking_item p =
     (case p of (index, item) \<Rightarrow>
        \<lparr>rank = index + 1, ri_drama = sd_drama item, ri_score = sd_score item, change = 0,
         ri_metrics = sd_metrics item\<rparr>)"






subsection \<open>The decay multiplier as the specification words it\<close>

definition hoursSinceUpdate :: "date \<Rightarrow> Drama \<Rightarrow> real" where
  "hoursSinceUpdate now drama = real_of_int (now - updatedAt drama) / 3600000"

definition spec_decay_multiplier :: "RankingType \<Rightarrow> real \<Rightarrow> real" where
  "spec_decay_multiplier type h =
     (if type = DAILY then max (1 / 2) (1 - h / 48)
      else if type = WEEKLY then max (7 / 10) (1 - h / 336)
      else 1)"

definition flag_boost :: "Drama \<Rightarrow> real" where
  "flag_boost drama = (if isHot drama then 11 / 10 else 1) * (if isNewDrama drama then 21 / 20 else 1)"

section \<open>The Redis wrapper (config/redis.ts)\<close>

text \<open>
  The cache holds strings. An entry set with a time to live carries the instant, in
  milliseconds, at which it expires; every operation takes the current instant \<open>now\<close>.
  \<open>getClient\<close> throws when the connection is down, so every operation can fail.
\<close>

record Redis =
  isConnected :: bool
  entries :: "string \<rightharpoonup> string \<times> date option"

definition isReady :: "Redis \<Rightarrow> bool" where
  "isReady r = isConnected r"

definition live_value :: "Redis \<Rightarrow> date \<Rightarrow> string \<Rightarrow> string option" where
  "live_value r now key =
     (case entries r key of
        None \<Rightarrow> None
      | Some (v, None) \<Rightarrow> Some v
      | Some (v, Some expires) \<Rightarrow> (if now < expires then Some v else None))"

definition redis_get :: "Redis \<Rightarrow> date \<Rightarrow> string \<Rightarrow> error + string option" where
  "redis_get r now key = (if isConnected r then Inr (live_value r now key) else Inl CacheError)"

text \<open>\<open>set(key, value, ttl)\<close>: \<open>setEx\<close> when \<open>ttl\<close> is given and not zero, seconds.\<close>

definition redis_set :: "Redis \<Rightarrow> date \<Rightarrow> string \<Rightarrow> string \<Rightarrow> nat option \<Rightarrow> error + Redis" where
  "redis_set r now key v ttl =
     (if isConnected r
      then Inr (r\<lparr>entries := (entries r)(key \<mapsto>
                  (v, case ttl of None \<Rightarrow> None
                      | Some n \<Rightarrow> (if n = 0 then None else Some (now + 1000 * int n))))\<rparr>)
      else Inl CacheError)"

definition redis_del :: "Redis \<Rightarrow> string \<Rightarrow> error + Redis" where
  "redis_del r key =
     (if isConnected r then Inr (r\<lparr>entries := (entries r)(key := None)\<rparr>) else Inl CacheError)"

definition redis_exists :: "Redis \<Rightarrow> date \<Rightarrow> string \<Rightarrow> error + nat" where
  "redis_exists r now key =
     (if isConnected r
      then Inr (case live_value r now key of None \<Rightarrow> 0 | Some v \<Rightarrow> 1)
      else Inl CacheError)"

section \<open>Category deletion (models/Category.ts, services/CategoryService.ts)\<close>

text \<open>\<open>Drama.countDocuments({ category: name })\<close>.\<close>

definition countDocuments_category :: "Store \<Rightarrow> string \<Rightarrow> nat" where
  "countDocuments_category st name = length (filter (\<lambda>d. category d = name) (dramas st))"

text \<open>
  \<open>category.deleteOne()\<close> with the schema's \<open>pre('deleteOne')\<close> hook: the hook counts the
  dramas whose category is this category's name and passes an error to \<open>next\<close> when
  there is one; otherwise the document is deleted.
\<close>

definition Category_deleteOne :: "Store \<Rightarrow> string \<Rightarrow> Category \<Rightarrow> error + Store" where
  "Category_deleteOne st cid c =
     (if \<not> store_up st then Inl StoreError
      else let dramaCount = countDocuments_category st (category_name c) in
        if dramaCount > 0 then Inl (DeleteBlocked (category_name c) dramaCount)
        else Inr (st\<lparr>categories := (categories st)(cid := None)\<rparr>))"

definition Category_findById :: "Store \<Rightarrow> string \<Rightarrow> error + Category option" where
  "Category_findById st cid = (if store_up st then Inr (categories st cid) else Inl StoreError)"

definition category_cache_keys :: "string list" where
  "category_cache_keys = [''categories:active'', ''categories:all'', ''categories:stats'']"

text \<open>
  The loop of \<open>clearCache\<close> inside its \<open>try\<close>: a failing \<open>del\<close> ends the loop, is
  logged and swallowed, and the deletions already done remain.
\<close>

fun del_keys :: "Redis \<Rightarrow> string list \<Rightarrow> Redis" where
  "del_keys r [] = r"
| "del_keys r (key # keys) =
     (case redis_del r key of Inl e \<Rightarrow> r | Inr r' \<Rightarrow> del_keys r' keys)"

definition clearCache :: "Redis \<Rightarrow> Redis" where
  "clearCache r = (if \<not> isReady r then r else del_keys r category_cache_keys)"

text \<open>
  \<open>CategoryService.deleteCategory(id)\<close>: the result or the rethrown error, with the store
  and the cache as the call leaves them.
\<close>

definition deleteCategory :: "Store \<Rightarrow> Redis \<Rightarrow> string \<Rightarrow> (error + bool) \<times> Store \<times> Redis" where
  "deleteCategory st r cid =
     (case Category_findById st cid of
        Inl e \<Rightarrow> (Inl e, st, r)
      | Inr None \<Rightarrow> (Inr False, st, r)
      | Inr (Some c) \<Rightarrow>
          (case Category_deleteOne st cid c of
             Inl e \<Rightarrow> (Inl e, st, r)
           | Inr st' \<Rightarrow> (Inr True, st', clearCache r)))"

section \<open>Numbers as decimal strings\<close>

text \<open>
  \<open>Number.prototype.toString\<close> on a non-negative integer, and \<open>parseInt\<close> on a string that
  starts with decimal digits: the value of the longest digit prefix, \<open>None\<close> (\<open>NaN\<close>) when
  the string does not start with a digit. Signs, leading blanks and the \<open>0x\<close> prefix, which
  \<open>parseInt\<close> also reads, do not occur in the strings the services store.
\<close>

definition digit_char :: "nat \<Rightarrow> char" where
  "digit_char n = ''0123456789'' ! n"

definition digit_val :: "char \<Rightarrow> nat option" where
  "digit_val c = map_of (zip ''0123456789'' [0, 1, 2, 3, 4, 5, 6, 7, 8, 9]) c"

fun toString_nat :: "nat \<Rightarrow> string" where
  "toString_nat n =
     (if n < 10 then [digit_char n] else toString_nat (n div 10) @ [digit_char (n mod 10)])"

declare toString_nat.simps [simp del]

fun parse_digits :: "nat \<Rightarrow> string \<Rightarrow> nat" where
  "parse_digits acc [] = acc"
| "parse_digits acc (c # cs) =
     (case digit_val c of None \<Rightarrow> acc | Some d \<Rightarrow> parse_digits (acc * 10 + d) cs)"

definition parseInt :: "string \<Rightarrow> nat option" where
  "parseInt s =
     (case s of
        [] \<Rightarrow> None
      | c # cs \<Rightarrow> (case digit_val c of None \<Rightarrow> None | Some d \<Rightarrow> Some (parse_digits 0 s)))"

text \<open>A number that may be \<open>NaN\<close> (\<open>None\<close>), printed.\<close>

definition toString_number :: "nat option \<Rightarrow> string" where
  "toString_number n = (case n of None \<Rightarrow> ''NaN'' | Some k \<Rightarrow> toString_nat k)"

text \<open>
  \<open>String.prototype.toLowerCase\<close> on the letters \<open>A\<close> to \<open>Z\<close>; every other character is
  left as it is.
\<close>

definition lower_char :: "char \<Rightarrow> char" where
  "lower_char c =
     (case map_of (zip ''ABCDEFGHIJKLMNOPQRSTUVWXYZ'' ''abcdefghijklmnopqrstuvwxyz'') c of
        None \<Rightarrow> c
      | Some l \<Rightarrow> l)"

definition toLowerCase :: "string \<Rightarrow> string" where
  "toLowerCase s = map lower_char s"

text \<open>
  \<open>String.prototype.trim\<close>: white space and line terminators are dropped at both ends
  (tab, line feed, vertical tab, form feed, carriage return, space and the no-break space,
  among the characters of one byte).
\<close>

definition is_white_space :: "char \<Rightarrow> bool" where
  "is_white_space c = ((of_char c :: nat) \<in> {9, 10, 11, 12, 13, 32, 160})"

definition trim :: "string \<Rightarrow> string" where
  "trim s = rev (dropWhile is_white_space (rev (dropWhile is_white_space s)))"

section \<open>User preferences (models/UserPreference.ts)\<close>

text \<open>
  A preference entry \<open>{ category, weight }\<close>, \<open>{ tag, weight }\<close> or \<open>{ actor, weight }\<close>:
  the name and its weight.
\<close>

record Weighted =
  entry_name :: string
  entry_weight :: real

record RatingRange =
  rr_min :: real
  rr_max :: real
  preferred :: real

record UserPreference =
  pref_userId :: string
  pref_categories :: "Weighted list"
  pref_tags :: "Weighted list"
  pref_actors :: "Weighted list"
  ratingRange :: RatingRange
  lastUpdated :: date

text \<open>\<open>Array.prototype.findIndex\<close>, \<open>None\<close> for \<open>-1\<close>, and \<open>Array.prototype.find\<close>.\<close>

fun findIndex :: "('a \<Rightarrow> bool) \<Rightarrow> 'a list \<Rightarrow> nat option" where
  "findIndex P [] = None"
| "findIndex P (x # xs) = (if P x then Some 0 else map_option Suc (findIndex P xs))"









subsection \<open>The invariant of a preference document\<close>



section \<open>RecommendationService scorers (services/RecommendationService.ts)\<close>

text \<open>
  \<open>calculatePersonalizedScore(drama, userPreference)\<close>. \<open>Array.prototype.find\<close> is
  \<^const>\<open>find\<close>; a found entry is an object, so \<open>if (categoryMatch)\<close> asks only whether
  one was found.
\<close>

definition calculatePersonalizedScore :: "Drama \<Rightarrow> UserPreference \<Rightarrow> real" where
  "calculatePersonalizedScore drama userPreference =
     (let score = 0;
          score = (case find (\<lambda>c. entry_name c = category drama) (pref_categories userPreference) of
                     Some categoryMatch \<Rightarrow> score + entry_weight categoryMatch * 40
                   | None \<Rightarrow> score);
          score = (case tags drama of
                     Some ts \<Rightarrow>
                       foldl (\<lambda>score tag.
                                case find (\<lambda>t. entry_name t = tag) (pref_tags userPreference) of
                                  Some tagMatch \<Rightarrow> score + entry_weight tagMatch * 20
                                | None \<Rightarrow> score) score ts
                   | None \<Rightarrow> score);
          score = (case cast drama of
                     Some actors \<Rightarrow>
                       foldl (\<lambda>score actor.
                                case find (\<lambda>a. entry_name a = actor) (pref_actors userPreference) of
                                  Some actorMatch \<Rightarrow> score + entry_weight actorMatch * 15
                                | None \<Rightarrow> score) score actors
                   | None \<Rightarrow> score);
          ratingDiff = \<bar>rating drama - preferred (ratingRange userPreference)\<bar>;
          score = score + max 0 (25 - ratingDiff * 5)
      in min 100 score)"

text \<open>
  \<open>calculateSimilarityScore(baseDrama, targetDrama)\<close>. An array, even an empty one, is
  truthy, so \<open>baseDrama.tags && targetDrama.tags\<close> asks whether both are present.
\<close>

definition calculateSimilarityScore :: "Drama \<Rightarrow> Drama \<Rightarrow> real" where
  "calculateSimilarityScore baseDrama targetDrama =
     (let score = 0;
          score = (if category baseDrama = category targetDrama then score + 30 else score);
          score = (case (tags baseDrama, tags targetDrama) of
                     (Some baseTags, Some targetTags) \<Rightarrow>
                       (let commonTags = filter (\<lambda>tag. tag \<in> set targetTags) baseTags
                        in score + real (length commonTags) * 10)
                   | _ \<Rightarrow> score);
          score = (case (cast baseDrama, cast targetDrama) of
                     (Some baseCast, Some targetCast) \<Rightarrow>
                       (let commonCast = filter (\<lambda>actor. actor \<in> set targetCast) baseCast
                        in score + real (length commonCast) * 15)
                   | _ \<Rightarrow> score);
          ratingDiff = \<bar>rating baseDrama - rating targetDrama\<bar>;
          score = score + max 0 (20 - ratingDiff * 4)
      in min 100 score)"

subsection \<open>The scores as the specification words them\<close>

text \<open>
  The weight stored for a name, \<open>0\<close> when the name is absent: the preference list read as
  a dictionary from names to weights.
\<close>

definition matched_weight :: "Weighted list \<Rightarrow> string \<Rightarrow> real" where
  "matched_weight prefs nm =
     (case map_of (map (\<lambda>e. (entry_name e, entry_weight e)) prefs) nm of
        None \<Rightarrow> 0
      | Some w \<Rightarrow> w)"

definition names_of :: "string list option \<Rightarrow> string list" where
  "names_of xs = (case xs of None \<Rightarrow> [] | Some ys \<Rightarrow> ys)"

definition spec_personalized_score :: "Drama \<Rightarrow> UserPreference \<Rightarrow> real" where
  "spec_personalized_score drama pref =
     min 100
       (matched_weight (pref_categories pref) (category drama) * 40
        + (\<Sum>tag \<leftarrow> names_of (tags drama). matched_weight (pref_tags pref) tag * 20)
        + (\<Sum>actor \<leftarrow> names_of (cast drama). matched_weight (pref_actors pref) actor * 15)
        + max 0 (25 - 5 * \<bar>rating drama - preferred (ratingRange pref)\<bar>))"

text \<open>
  Full overlap: both lists are present and every name of the seed occurs in the candidate.
  No overlap: no name of the seed occurs in the candidate (or a list is absent).
\<close>

definition full_overlap :: "string list option \<Rightarrow> string list option \<Rightarrow> bool" where
  "full_overlap base target =
     (case (base, target) of
        (Some b, Some t) \<Rightarrow> list_all (\<lambda>x. x \<in> set t) b
      | _ \<Rightarrow> False)"

definition no_overlap :: "string list option \<Rightarrow> string list option \<Rightarrow> bool" where
  "no_overlap base target =
     (case (base, target) of
        (Some b, Some t) \<Rightarrow> list_all (\<lambda>x. x \<notin> set t) b
      | _ \<Rightarrow> True)"

section \<open>AuthService (services/AuthService.ts)\<close>

definition TOKEN_BLACKLIST_PREFIX :: string where
  "TOKEN_BLACKLIST_PREFIX = ''blacklist:token:''"

definition FAILED_LOGIN_PREFIX :: string where
  "FAILED_LOGIN_PREFIX = ''failed_login:''"

definition MAX_LOGIN_ATTEMPTS :: nat where
  "MAX_LOGIN_ATTEMPTS = 5"

definition LOCKOUT_DURATION :: nat where
  "LOCKOUT_DURATION = 15 * 60"

record JWTPayload =
  jwt_userId :: string
  jwt_email :: string

definition User_findById :: "Store \<Rightarrow> string \<Rightarrow> error + User option" where
  "User_findById st uid =
     (if store_up st then Inr (find (\<lambda>u. user_id u = uid) (users st)) else Inl StoreError)"

text \<open>
  \<open>findByEmailWithPassword\<close> is \<open>findOne({ email })\<close>. The schema declares the email path
  with \<open>trim: true\<close> and \<open>lowercase: true\<close>, and Mongoose runs a path's setters on the value
  of a query filter, so the stored emails are compared with the trimmed, lowercased
  argument.
\<close>

definition User_findByEmailWithPassword :: "Store \<Rightarrow> string \<Rightarrow> error + User option" where
  "User_findByEmailWithPassword st mail =
     (if store_up st then Inr (find (\<lambda>u. email u = toLowerCase (trim mail)) (users st))
      else Inl StoreError)"

subsection \<open>verifyAccessToken\<close>

text \<open>
  The body of the \<open>try\<close> block. \<open>jwt.verify\<close> of the jsonwebtoken library is the
  parameter \<open>jwt_verify\<close>: the decoded payload, or \<open>None\<close> when it throws (bad
  signature, expired token).
\<close>

definition verifyAccessToken_try ::
  "(string \<Rightarrow> JWTPayload option) \<Rightarrow> Store \<Rightarrow> Redis \<Rightarrow> date \<Rightarrow> string \<Rightarrow> error + User option" where
  "verifyAccessToken_try jwt_verify st r now token =
     (case (if isReady r
            then (case redis_exists r now (TOKEN_BLACKLIST_PREFIX @ token) of
                    Inl e \<Rightarrow> Inl e
                  | Inr isBlacklisted \<Rightarrow> Inr (isBlacklisted \<noteq> 0))
            else Inr False) of
        Inl e \<Rightarrow> Inl e
      | Inr True \<Rightarrow> Inr None
      | Inr False \<Rightarrow>
          (case jwt_verify token of
             None \<Rightarrow> Inl TokenInvalid
           | Some decoded \<Rightarrow>
               (case User_findById st (jwt_userId decoded) of
                  Inl e \<Rightarrow> Inl e
                | Inr None \<Rightarrow> Inr None
                | Inr (Some user) \<Rightarrow>
                    (if status user \<noteq> ACTIVE then Inr None else Inr (Some user)))))"

text \<open>\<open>verifyAccessToken\<close>: the \<open>catch\<close> logs the error and returns \<open>null\<close>.\<close>

definition verifyAccessToken ::
  "(string \<Rightarrow> JWTPayload option) \<Rightarrow> Store \<Rightarrow> Redis \<Rightarrow> date \<Rightarrow> string \<Rightarrow> error + User option" where
  "verifyAccessToken jwt_verify st r now token =
     (case verifyAccessToken_try jwt_verify st r now token of
        Inl e \<Rightarrow> Inr None
      | Inr v \<Rightarrow> Inr v)"

text \<open>The token is on the blacklist: its key is in the cache and has not expired.\<close>

definition blacklisted :: "Redis \<Rightarrow> date \<Rightarrow> string \<Rightarrow> bool" where
  "blacklisted r now token = (live_value r now (TOKEN_BLACKLIST_PREFIX @ token) \<noteq> None)"

subsection \<open>login and the failed-login counter\<close>

record LoginData =
  ld_email :: string
  ld_password :: string

definition failed_login_key :: "string \<Rightarrow> string" where
  "failed_login_key mail = FAILED_LOGIN_PREFIX @ mail"

text \<open>
  \<open>checkLoginAttempts\<close>: \<open>attempts && parseInt(attempts) >= MAX_LOGIN_ATTEMPTS\<close>; the empty
  string is falsy and \<open>NaN >= 5\<close> is false.
\<close>

definition checkLoginAttempts :: "Redis \<Rightarrow> date \<Rightarrow> string \<Rightarrow> error + unit" where
  "checkLoginAttempts r now mail =
     (if \<not> isReady r then Inr ()
      else case redis_get r now (failed_login_key mail) of
             Inl e \<Rightarrow> Inl e
           | Inr attempts \<Rightarrow>
               (if (case attempts of
                      None \<Rightarrow> False
                    | Some a \<Rightarrow> a \<noteq> [] \<and> (case parseInt a of
                                             None \<Rightarrow> False
                                           | Some n \<Rightarrow> n \<ge> MAX_LOGIN_ATTEMPTS))
                then Inl LockedOut else Inr ()))"

text \<open>
  \<open>recordFailedLogin\<close>: \<open>current ? parseInt(current) + 1 : 1\<close>, stored for
  \<open>LOCKOUT_DURATION\<close> seconds.
\<close>

definition recordFailedLogin :: "Redis \<Rightarrow> date \<Rightarrow> string \<Rightarrow> error + Redis" where
  "recordFailedLogin r now mail =
     (if \<not> isReady r then Inr r
      else case redis_get r now (failed_login_key mail) of
             Inl e \<Rightarrow> Inl e
           | Inr current \<Rightarrow>
               (let attempts = (case current of
                                  None \<Rightarrow> Some 1
                                | Some c \<Rightarrow> (if c \<noteq> [] then map_option (\<lambda>n. n + 1) (parseInt c)
                                             else Some 1))
                in redis_set r now (failed_login_key mail) (toString_number attempts)
                     (Some LOCKOUT_DURATION)))"

definition clearFailedLogins :: "Redis \<Rightarrow> string \<Rightarrow> error + Redis" where
  "clearFailedLogins r mail =
     (if \<not> isReady r then Inr r else redis_del r (failed_login_key mail))"

text \<open>
  What \<open>login\<close> calls outside this repository's sources: \<open>bcrypt.compare\<close> (inside
  \<open>comparePassword\<close>, which returns \<open>false\<close> when it throws); \<open>jwt.sign\<close> for the access and
  the refresh token of a user (\<open>generateAuthToken\<close>, \<open>generateRefreshToken\<close>), \<open>None\<close> when it
  throws; \<open>UserSessionModel.create\<close> for the user id, the refresh token and the instant,
  false when it rejects (the session model is not among the sources; the ip address and
  the user agent that \<open>createUserSession\<close> hands on are left out); and \<open>user.save()\<close>,
  which runs the schema's validators on the document and writes it, false when it rejects.
\<close>

record LoginEnv =
  bcrypt_compare :: "string \<Rightarrow> string \<Rightarrow> bool"
  jwt_sign :: "User \<Rightarrow> (string \<times> string) option"
  UserSession_create :: "string \<Rightarrow> string \<Rightarrow> date \<Rightarrow> bool"
  User_save :: "User \<Rightarrow> bool"

text \<open>\<open>toSafeObject\<close>: the document without its password.\<close>

record SafeUser =
  safe_id :: string
  safe_email :: string
  safe_status :: UserStatus
  safe_lastLoginAt :: "date option"

definition toSafeObject :: "User \<Rightarrow> SafeUser" where
  "toSafeObject u = \<lparr>safe_id = user_id u, safe_email = email u, safe_status = status u,
     safe_lastLoginAt = lastLoginAt u\<rparr>"

text \<open>
  \<open>AuthResult\<close>; its \<open>expiresIn\<close>, a number read from the environment variable
  \<open>JWT_EXPIRES_IN\<close>, is left out.
\<close>

record AuthResult =
  auth_user :: SafeUser
  accessToken :: string
  refreshToken :: string

text \<open>
  \<open>login\<close>: the outcome and the cache as the call leaves it. Every \<open>throw\<close> and every
  rejected call of the body is caught, logged and thrown again, so it is the outcome. After
  \<open>clearFailedLogins\<close> the source signs the two tokens, creates the session, sets
  \<open>lastLoginAt\<close> and saves the user; when one of these throws, the failure counter has
  already been deleted. The writes to the session and user collections are not part of
  the returned state: every call is given the store of its moment.
\<close>

definition login ::
  "LoginEnv \<Rightarrow> Store \<Rightarrow> Redis \<Rightarrow> date \<Rightarrow> LoginData \<Rightarrow> (error + AuthResult) \<times> Redis" where
  "login env st r now loginData =
     (case checkLoginAttempts r now (ld_email loginData) of
        Inl e \<Rightarrow> (Inl e, r)
      | Inr u \<Rightarrow>
          (case User_findByEmailWithPassword st (ld_email loginData) of
             Inl e \<Rightarrow> (Inl e, r)
           | Inr None \<Rightarrow>
               (case recordFailedLogin r now (ld_email loginData) of
                  Inl e \<Rightarrow> (Inl e, r)
                | Inr r' \<Rightarrow> (Inl InvalidCredentials, r'))
           | Inr (Some user) \<Rightarrow>
               (if status user \<noteq> ACTIVE then (Inl AccountDisabled, r)
                else if \<not> bcrypt_compare env (ld_password loginData) (password user)
                then (case recordFailedLogin r now (ld_email loginData) of
                        Inl e \<Rightarrow> (Inl e, r)
                      | Inr r' \<Rightarrow> (Inl InvalidCredentials, r'))
                else (case clearFailedLogins r (ld_email loginData) of
                        Inl e \<Rightarrow> (Inl e, r)
                      | Inr r' \<Rightarrow>
                          (case jwt_sign env user of
                             None \<Rightarrow> (Inl SignError, r')
                           | Some (access, refresh) \<Rightarrow>
                               (if \<not> UserSession_create env (user_id user) refresh now
                                then (Inl SessionError, r')
                                else (let user = user\<lparr>lastLoginAt := Some now\<rparr>
                                      in if \<not> User_save env user then (Inl SaveError, r')
                                         else (Inr \<lparr>auth_user = toSafeObject user,
                                                     accessToken = access,
                                                     refreshToken = refresh\<rparr>, r'))))))))"

text \<open>
  A sequence of login attempts, each with the store, the instant and the credentials of
  its moment; the cache is threaded through.
\<close>

fun login_attempts ::
  "LoginEnv \<Rightarrow> Redis \<Rightarrow> (Store \<times> date \<times> LoginData) list
     \<Rightarrow> (error + AuthResult) list \<times> Redis" where
  "login_attempts env r [] = ([], r)"
| "login_attempts env r ((st, now, d) # rest) =
     (let (res, r') = login env st r now d;
          (ress, r'') = login_attempts env r' rest
      in (res # ress, r''))"

definition attempt_times :: "(Store \<times> date \<times> LoginData) list \<Rightarrow> date list" where
  "attempt_times attempts = map (\<lambda>(st, now, d). now) attempts"

definition attempts_for :: "string \<Rightarrow> (Store \<times> date \<times> LoginData) list \<Rightarrow> bool" where
  "attempts_for mail attempts = list_all (\<lambda>(st, now, d). ld_email d = mail) attempts"

definition all_fail :: "(error + AuthResult) list \<Rightarrow> bool" where
  "all_fail results = list_all (\<lambda>res. res = Inl InvalidCredentials) results"

text \<open>
  Each instant of the list is less than the lockout duration after the one before it, so
  that a counter written at one attempt is still in the cache at the next.
\<close>

fun within_lockout_window :: "date list \<Rightarrow> bool" where
  "within_lockout_window (a # b # ts) =
     (b < a + 1000 * int LOCKOUT_DURATION \<and> within_lockout_window (b # ts))"
| "within_lockout_window ts = True"

text \<open>
  The number \<open>recordFailedLogin\<close> would add one to at instant \<open>now\<close>: the live counter, \<open>0\<close>
  without one, \<open>None\<close> when the cached string is not a number.
\<close>

definition live_count :: "Redis \<Rightarrow> date \<Rightarrow> string \<Rightarrow> nat option" where
  "live_count r now mail =
     (case live_value r now (failed_login_key mail) of
        None \<Rightarrow> Some 0
      | Some c \<Rightarrow> (if c = [] then Some 0 else parseInt c))"

text \<open>The same for the stored entry, whether it has expired or not.\<close>

definition stored_count :: "Redis \<Rightarrow> string \<Rightarrow> nat option" where
  "stored_count r mail =
     (case entries r (failed_login_key mail) of
        None \<Rightarrow> Some 0
      | Some (c, t) \<Rightarrow> (if c = [] then Some 0 else parseInt c))"

section \<open>Cache keys (RecommendationService.buildCacheKey, SearchService.buildCacheKey)\<close>

subsection \<open>JSON.stringify on the request objects\<close>

text \<open>
  \<open>JSON.stringify\<close> quotes a string and escapes the quote, the backslash and the control
  characters; it prints an object as its members in insertion order, leaving out those whose
  value is \<open>undefined\<close>.
\<close>

definition hex_digit :: "nat \<Rightarrow> char" where
  "hex_digit n = ''0123456789abcdef'' ! n"

definition json_escape :: "char \<Rightarrow> string" where
  "json_escape c =
     (if c = CHR 0x22 then [CHR 0x5C, CHR 0x22]
      else if c = CHR 0x5C then [CHR 0x5C, CHR 0x5C]
      else if c = CHR 0x08 then [CHR 0x5C, CHR ''b'']
      else if c = CHR 0x0C then [CHR 0x5C, CHR ''f'']
      else if c = CHR 0x0A then [CHR 0x5C, CHR ''n'']
      else if c = CHR 0x0D then [CHR 0x5C, CHR ''r'']
      else if c = CHR 0x09 then [CHR 0x5C, CHR ''t'']
      else if (of_char c :: nat) < 32
      then [CHR 0x5C, CHR ''u'', CHR ''0'', CHR ''0'',
            hex_digit ((of_char c :: nat) div 16), hex_digit ((of_char c :: nat) mod 16)]
      else [c])"

definition json_string :: "string \<Rightarrow> string" where
  "json_string s = CHR 0x22 # concat (map json_escape s) @ [CHR 0x22]"

fun join :: "string \<Rightarrow> string list \<Rightarrow> string" where
  "join sep [] = []"
| "join sep [x] = x"
| "join sep (x # y # ys) = x @ sep @ join sep (y # ys)"

definition json_array :: "string list \<Rightarrow> string" where
  "json_array xs = ''['' @ join '','' (map json_string xs) @ '']''"

definition json_bool :: "bool \<Rightarrow> string" where
  "json_bool b = (if b then ''true'' else ''false'')"

text \<open>An object, from its keys and the printed values of its members.\<close>

definition json_member :: "string \<times> string option \<Rightarrow> string list" where
  "json_member m =
     (case m of (k, None) \<Rightarrow> [] | (k, Some v) \<Rightarrow> [json_string k @ '':'' @ v])"

definition json_object :: "(string \<times> string option) list \<Rightarrow> string" where
  "json_object members = ''{'' @ join '','' (concat (map json_member members)) @ ''}''"

subsection \<open>The recommendation request and its key\<close>

datatype RecommendationType = PERSONALIZED | SIMILAR | TRENDING | HOT | NEW | CATEGORY_BASED
  | COLLABORATIVE | CONTENT_BASED

fun recommendation_type_value :: "RecommendationType \<Rightarrow> string" where
  "recommendation_type_value PERSONALIZED = ''personalized''"
| "recommendation_type_value SIMILAR = ''similar''"
| "recommendation_type_value TRENDING = ''trending''"
| "recommendation_type_value HOT = ''hot''"
| "recommendation_type_value NEW = ''new''"
| "recommendation_type_value CATEGORY_BASED = ''category_based''"
| "recommendation_type_value COLLABORATIVE = ''collaborative''"
| "recommendation_type_value CONTENT_BASED = ''content_based''"

record RecommendationRequest =
  rq_userId :: "string option"
  rq_dramaId :: "string option"
  rq_type :: RecommendationType
  rq_limit :: "nat option"
  rq_excludeWatched :: "bool option"
  rq_categories :: "string list option"

definition recommendation_json :: "RecommendationRequest \<Rightarrow> string" where
  "recommendation_json request =
     json_object
       [(''userId'', map_option json_string (rq_userId request)),
        (''dramaId'', map_option json_string (rq_dramaId request)),
        (''type'', Some (json_string (recommendation_type_value (rq_type request)))),
        (''limit'', map_option toString_nat (rq_limit request)),
        (''excludeWatched'', map_option json_bool (rq_excludeWatched request)),
        (''categories'', map_option json_array (rq_categories request))]"

definition buildCacheKey :: "RecommendationRequest \<Rightarrow> string" where
  "buildCacheKey request =
     (let key = ''recommendation'' @ '':'' @ recommendation_json request
      in take 250 key)"

subsection \<open>The search request and its key\<close>

datatype SearchType = SEARCH_ALL | SEARCH_DRAMA | SEARCH_USER | SEARCH_CATEGORY

fun search_type_value :: "SearchType \<Rightarrow> string" where
  "search_type_value SEARCH_ALL = ''all''"
| "search_type_value SEARCH_DRAMA = ''drama''"
| "search_type_value SEARCH_USER = ''user''"
| "search_type_value SEARCH_CATEGORY = ''category''"

datatype SortBy = RELEVANCE | RATING | VIEW_COUNT | RELEASE_DATE | CREATED_AT | UPDATED_AT

fun sort_by_value :: "SortBy \<Rightarrow> string" where
  "sort_by_value RELEVANCE = ''relevance''"
| "sort_by_value RATING = ''rating''"
| "sort_by_value VIEW_COUNT = ''viewCount''"
| "sort_by_value RELEASE_DATE = ''releaseDate''"
| "sort_by_value CREATED_AT = ''createdAt''"
| "sort_by_value UPDATED_AT = ''updatedAt''"

datatype SortOrder = ASC | DESC

fun sort_order_value :: "SortOrder \<Rightarrow> string" where
  "sort_order_value ASC = ''asc''"
| "sort_order_value DESC = ''desc''"

text \<open>
  \<open>SearchFilters\<close>, its members in the order in which \<open>SearchController.search\<close> writes
  them. A rating bound is carried as the text \<open>JSON.stringify\<close> prints for the number, a
  date as the ISO text of \<open>Date.prototype.toJSON\<close>.
\<close>

record SearchFilters =
  sf_type :: "SearchType option"
  sf_category :: "string option"
  sf_tags :: "string list option"
  sf_minRating :: "string option"
  sf_maxRating :: "string option"
  sf_minViewCount :: "nat option"
  sf_maxViewCount :: "nat option"
  sf_releaseDateFrom :: "string option"
  sf_releaseDateTo :: "string option"
  sf_isHot :: "bool option"
  sf_isNew :: "bool option"
  sf_sortBy :: "SortBy option"
  sf_sortOrder :: "SortOrder option"
  sf_page :: "nat option"
  sf_limit :: "nat option"

record SearchRequest =
  sr_query :: string
  sr_filters :: "SearchFilters option"
  sr_userId :: "string option"

definition filters_json :: "SearchFilters \<Rightarrow> string" where
  "filters_json f =
     json_object
       [(''type'', map_option (json_string \<circ> search_type_value) (sf_type f)),
        (''category'', map_option json_string (sf_category f)),
        (''tags'', map_option json_array (sf_tags f)),
        (''minRating'', sf_minRating f),
        (''maxRating'', sf_maxRating f),
        (''minViewCount'', map_option toString_nat (sf_minViewCount f)),
        (''maxViewCount'', map_option toString_nat (sf_maxViewCount f)),
        (''releaseDateFrom'', map_option json_string (sf_releaseDateFrom f)),
        (''releaseDateTo'', map_option json_string (sf_releaseDateTo f)),
        (''isHot'', map_option json_bool (sf_isHot f)),
        (''isNew'', map_option json_bool (sf_isNew f)),
        (''sortBy'', map_option (json_string \<circ> sort_by_value) (sf_sortBy f)),
        (''sortOrder'', map_option (json_string \<circ> sort_order_value) (sf_sortOrder f)),
        (''page'', map_option toString_nat (sf_page f)),
        (''limit'', map_option toString_nat (sf_limit f))]"

text \<open>\<open>const { query, filters = {} } = request\<close>: absent filters print as \<open>{}\<close>.\<close>

definition search_json :: "SearchRequest \<Rightarrow> string" where
  "search_json request =
     json_object
       [(''query'', Some (json_string (sr_query request))),
        (''filters'', Some (case sr_filters request of
                              None \<Rightarrow> json_object []
                            | Some f \<Rightarrow> filters_json f))]"

definition search_buildCacheKey :: "SearchRequest \<Rightarrow> string" where
  "search_buildCacheKey request =
     (let key = ''search:result'' @ '':'' @ search_json request
      in take 250 key)"

subsection \<open>The cache in front of getRecommendations\<close>

definition RECOMMENDATION_CACHE_TTL :: nat where
  "RECOMMENDATION_CACHE_TTL = 3600"

text \<open>
  \<open>getRecommendations\<close>, with the work between the cache read and the cache write as the
  parameter \<open>compute\<close>: the strategy chosen by the request's type, run against the store,
  its result printed by \<open>JSON.stringify\<close>. A result is carried as that text, so the
  \<open>JSON.parse\<close> of a hit is the identity; the \<open>executionTime\<close> the source overwrites on a
  hit is not part of it. \<open>if (cached)\<close> is false for the empty string.
\<close>

definition getRecommendations ::
  "(RecommendationRequest \<Rightarrow> error + string) \<Rightarrow> Redis \<Rightarrow> date \<Rightarrow> RecommendationRequest
     \<Rightarrow> (error + string) \<times> Redis" where
  "getRecommendations compute r now request =
     (let cacheKey = buildCacheKey request in
      case (if isReady r then redis_get r now cacheKey else Inr None) of
        Inl e \<Rightarrow> (Inl e, r)
      | Inr cached \<Rightarrow>
          (if (case cached of None \<Rightarrow> False | Some c \<Rightarrow> c \<noteq> [])
           then (Inr (the cached), r)
           else (case compute request of
                   Inl e \<Rightarrow> (Inl e, r)
                 | Inr result \<Rightarrow>
                     (if isReady r
                      then (case redis_set r now cacheKey result (Some RECOMMENDATION_CACHE_TTL) of
                              Inl e \<Rightarrow> (Inl e, r)
                            | Inr r' \<Rightarrow> (Inr result, r'))
                      else (Inr result, r)))))"

subsection \<open>The cache in front of search\<close>

definition SEARCH_CACHE_TTL :: nat where
  "SEARCH_CACHE_TTL = 1800"

text \<open>
  \<open>SearchService.search\<close>, with the work between the cache read and the cache write as the
  parameter \<open>compute\<close>: \<open>performSearch\<close>, the page cut, the facets and the suggestions, the
  result printed by \<open>JSON.stringify\<close>. As in \<open>getRecommendations\<close> a result is carried as
  that text and \<open>if (cached)\<close> is false for the empty string. After the cache write the
  source records the search in the history of a logged-in user; \<open>recordSearchHistory\<close>
  catches its own errors and writes to the history collection only, so it changes neither
  the result nor the cache, and a hit returns before it.
\<close>

definition search ::
  "(SearchRequest \<Rightarrow> error + string) \<Rightarrow> Redis \<Rightarrow> date \<Rightarrow> SearchRequest
     \<Rightarrow> (error + string) \<times> Redis" where
  "search compute r now request =
     (let cacheKey = search_buildCacheKey request in
      case (if isReady r then redis_get r now cacheKey else Inr None) of
        Inl e \<Rightarrow> (Inl e, r)
      | Inr cached \<Rightarrow>
          (if (case cached of None \<Rightarrow> False | Some c \<Rightarrow> c \<noteq> [])
           then (Inr (the cached), r)
           else (case compute request of
                   Inl e \<Rightarrow> (Inl e, r)
                 | Inr result \<Rightarrow>
                     (if isReady r
                      then (case redis_set r now cacheKey result (Some SEARCH_CACHE_TTL) of
                              Inl e \<Rightarrow> (Inl e, r)
                            | Inr r' \<Rightarrow> (Inr result, r'))
                      else (Inr result, r)))))"

section \<open>SearchService relevance (class SearchService, in services/AuthService.ts)\<close>

subsection \<open>Strings\<close>

text \<open>
  \<open>includes\<close> (here \<open>string_includes\<close>) and \<open>startsWith\<close> are the substring and prefix
  tests; both hold for the empty search string.
\<close>

fun string_includes :: "string \<Rightarrow> string \<Rightarrow> bool" where
  "string_includes [] searchString = (searchString = [])"
| "string_includes (c # cs) searchString = (prefix searchString (c # cs) \<or> string_includes cs searchString)"

definition startsWith :: "string \<Rightarrow> string \<Rightarrow> bool" where
  "startsWith s searchString = prefix searchString s"

subsection \<open>levenshteinDistance\<close>

text \<open>
  The matrix is an array of rows. \<open>matrix[i][j] = v\<close> overwrites an entry of row \<open>i\<close> or,
  when \<open>j\<close> is the length of the row, appends to it, which are the two cases that
  occur. Each \<open>for\<close> statement is a function of its counter and the matrix.
\<close>

type_synonym matrix = "nat list list"

definition set_cell :: "matrix \<Rightarrow> nat \<Rightarrow> nat \<Rightarrow> nat \<Rightarrow> matrix" where
  "set_cell m i j v =
     m[i := (if j < length (m ! i) then (m ! i)[j := v] else (m ! i) @ [v])]"

function init_rows :: "nat \<Rightarrow> nat \<Rightarrow> matrix \<Rightarrow> matrix" where
  "init_rows i n m = (if i \<le> n then init_rows (i + 1) n (m @ [ [i] ]) else m)"
  by pat_completeness auto
termination
  by (relation "measure (\<lambda>(i, n, m). Suc n - i)") auto

function init_first_row :: "nat \<Rightarrow> nat \<Rightarrow> matrix \<Rightarrow> matrix" where
  "init_first_row j n m = (if j \<le> n then init_first_row (j + 1) n (set_cell m 0 j j) else m)"
  by pat_completeness auto
termination
  by (relation "measure (\<lambda>(j, n, m). Suc n - j)") auto

definition cell_value :: "string \<Rightarrow> string \<Rightarrow> matrix \<Rightarrow> nat \<Rightarrow> nat \<Rightarrow> nat" where
  "cell_value str1 str2 m i j =
     (if str2 ! (i - 1) = str1 ! (j - 1) then m ! (i - 1) ! (j - 1)
      else min (min (m ! (i - 1) ! (j - 1) + 1) (m ! i ! (j - 1) + 1)) (m ! (i - 1) ! j + 1))"

function fill_row :: "string \<Rightarrow> string \<Rightarrow> nat \<Rightarrow> nat \<Rightarrow> matrix \<Rightarrow> matrix" where
  "fill_row str1 str2 i j m =
     (if j \<le> length str1
      then fill_row str1 str2 i (j + 1) (set_cell m i j (cell_value str1 str2 m i j))
      else m)"
  by pat_completeness auto
termination
  by (relation "measure (\<lambda>(str1, str2, i, j, m). Suc (length str1) - j)") auto

function fill_rows :: "string \<Rightarrow> string \<Rightarrow> nat \<Rightarrow> matrix \<Rightarrow> matrix" where
  "fill_rows str1 str2 i m =
     (if i \<le> length str2 then fill_rows str1 str2 (i + 1) (fill_row str1 str2 i 1 m) else m)"
  by pat_completeness auto
termination
  by (relation "measure (\<lambda>(str1, str2, i, m). Suc (length str2) - i)") auto

declare init_rows.simps [simp del]
declare init_first_row.simps [simp del]
declare fill_row.simps [simp del]
declare fill_rows.simps [simp del]

definition levenshteinDistance :: "string \<Rightarrow> string \<Rightarrow> nat" where
  "levenshteinDistance str1 str2 =
     (let matrix = init_rows 0 (length str2) [];
          matrix = init_first_row 0 (length str1) matrix;
          matrix = fill_rows str1 str2 1 matrix
      in matrix ! length str2 ! length str1)"

subsection \<open>calculateStringSimilarity and calculateRelevanceScore\<close>

definition calculateStringSimilarity :: "string \<Rightarrow> string \<Rightarrow> real" where
  "calculateStringSimilarity str1 str2 =
     (let longer = (if length str1 > length str2 then str1 else str2);
          shorter = (if length str1 > length str2 then str2 else str1)
      in if length longer = 0 then 1
         else (let editDistance = levenshteinDistance longer shorter
               in (real (length longer) - real editDistance) / real (length longer)))"

text \<open>\<open>description?.toLowerCase() || ''\<close>: an absent description counts as empty.\<close>

definition calculateRelevanceScore :: "string \<Rightarrow> string \<Rightarrow> string option \<Rightarrow> real" where
  "calculateRelevanceScore query titleText descriptionText =
     (let score = 0;
          queryLower = toLowerCase query;
          titleLower = toLowerCase titleText;
          descLower = (case descriptionText of None \<Rightarrow> [] | Some d \<Rightarrow> toLowerCase d);
          score = (if titleLower = queryLower then score + 100
                   else if string_includes titleLower queryLower then score + 80
                   else if startsWith titleLower queryLower then score + 60
                   else score);
          score = (if string_includes descLower queryLower then score + 20 else score);
          score = score + calculateStringSimilarity queryLower titleLower * 40
      in min 100 score)"

subsection \<open>The score as the specification words it\<close>

text \<open>
  The Levenshtein distance by its recurrence, and the normalized similarity
  \<open>1 - distance / max(len1, len2)\<close>, taken as \<open>1\<close> for two empty strings.
\<close>

fun lev :: "'a list \<Rightarrow> 'a list \<Rightarrow> nat" where
  "lev [] ys = length ys"
| "lev xs [] = length xs"
| "lev (x # xs) (y # ys) =
     (if x = y then lev xs ys
      else 1 + min (lev xs ys) (min (lev xs (y # ys)) (lev (x # xs) ys)))"

subsection \<open>The table that levenshteinDistance computes\<close>

text \<open>
  The matrix that is built: entry \<open>(i, j)\<close> is the distance between the first \<open>j\<close>
  characters of \<open>str1\<close> and the first \<open>i\<close> characters of \<open>str2\<close>.
\<close>

definition prefix_distance :: "string \<Rightarrow> string \<Rightarrow> nat \<Rightarrow> nat \<Rightarrow> nat" where
  "prefix_distance str1 str2 i j = lev (take j str1) (take i str2)"

definition dp_row :: "string \<Rightarrow> string \<Rightarrow> nat \<Rightarrow> nat list" where
  "dp_row str1 str2 i = map (prefix_distance str1 str2 i) [0..<Suc (length str1)]"

text \<open>The matrix with the rows below \<open>i\<close> filled and the others as initialised.\<close>

definition dp_table :: "string \<Rightarrow> string \<Rightarrow> nat \<Rightarrow> matrix" where
  "dp_table str1 str2 i = map (dp_row str1 str2) [0..<i] @ map (\<lambda>i'. [i']) [i..<Suc (length str2)]"

text \<open>The same with row \<open>i\<close> filled up to, not including, column \<open>j\<close>.\<close>

definition dp_partial :: "string \<Rightarrow> string \<Rightarrow> nat \<Rightarrow> nat \<Rightarrow> matrix" where
  "dp_partial str1 str2 i j = (dp_table str1 str2 i)[i := map (prefix_distance str1 str2 i) [0..<j]]"

subsection \<open>The components of the score\<close>

definition normalizedStringSimilarity :: "string \<Rightarrow> string \<Rightarrow> real" where
  "normalizedStringSimilarity a b =
     (if max (length a) (length b) = 0 then 1
      else 1 - real (lev a b) / real (max (length a) (length b)))"

text \<open>
  The components of the score: 100 for an equal title, otherwise 80 for a title that
  contains the query; 20 for a description that contains it.
\<close>

definition title_component :: "string \<Rightarrow> string \<Rightarrow> real" where
  "title_component q t = (if t = q then 100 else if sublist q t then 80 else 0)"

definition description_component :: "string \<Rightarrow> string option \<Rightarrow> real" where
  "description_component q d =
     (if sublist q (case d of None \<Rightarrow> [] | Some x \<Rightarrow> toLowerCase x) then 20 else 0)"

text \<open>
  The score as the sentence under check words it: the plain sum of the components, a
  title that properly starts with the query getting the 60 points of a prefix match, the
  similarity taken of the query and the title.
\<close>

definition relevance_sum :: "string \<Rightarrow> string \<Rightarrow> string option \<Rightarrow> real" where
  "relevance_sum query titleText descriptionText =
     (let q = toLowerCase query; t = toLowerCase titleText
      in (if t = q then 100 else if prefix q t then 60 else if sublist q t then 80 else 0)
         + description_component q descriptionText
         + 40 * normalizedStringSimilarity query titleText)"

section \<open>Example data\<close>

definition demo_drama :: Drama where
  "demo_drama = \<lparr>drama_id = ''d1'', title = ''Moon'', description = ''A story'',
     category = ''romance'', tags = Some [''love''], cast = Some [''Li''], rating = 8,
     viewCount = 9, commentCount = None, favoriteCount = Some 0, isHot = True,
     isNewDrama = False, updatedAt = 0\<rparr>"

definition demo_store :: Store where
  "demo_store = \<lparr>store_up = True, dramas = [demo_drama],
     categories = [''c1'' \<mapsto> \<lparr>category_name = ''romance'', isActive = True\<rparr>,
                   ''c2'' \<mapsto> \<lparr>category_name = ''comedy'', isActive = True\<rparr>],
     users = []\<rparr>"

definition demo_redis :: Redis where
  "demo_redis = \<lparr>isConnected = True, entries = Map.empty\<rparr>"

definition demo_candidate :: Drama where
  "demo_candidate = demo_drama\<lparr>drama_id := ''d2'', title := ''Sun''\<rparr>"

definition demo_unrelated :: Drama where
  "demo_unrelated = \<lparr>drama_id = ''d3'', title = ''Rain'', description = ''Another story'',
     category = ''comedy'', tags = Some [''fun''], cast = None, rating = 3,
     viewCount = 0, commentCount = None, favoriteCount = None, isHot = False,
     isNewDrama = True, updatedAt = 0\<rparr>"





text \<open>
  Two stored users. The passwords are the bcrypt hashes (cost 12) of \<open>Secret123\<close> and of
  \<open>Other1234\<close>.
\<close>

definition demo_user :: User where
  "demo_user = \<lparr>user_id = ''u1'', email = ''ann@example.com'',
     password = ''$2b$12$abcdefghijklmnopqrstuuhfzFpBaIOD3.x/mq5zbKsj8UgXq8SK.'',
     status = ACTIVE, lastLoginAt = None\<rparr>"

definition demo_banned :: User where
  "demo_banned = \<lparr>user_id = ''u2'', email = ''bob@example.com'',
     password = ''$2b$12$ABCDEFGHIJKLMNOPQRSTUuLvdE6yMAoHggUX7qsAdxnC3bdcDZDuC'',
     status = BANNED, lastLoginAt = None\<rparr>"

definition demo_user_store :: Store where
  "demo_user_store = \<lparr>store_up = True, dramas = [], categories = Map.empty,
     users = [demo_user, demo_banned]\<rparr>"

definition demo_jwt_verify :: "string \<Rightarrow> JWTPayload option" where
  "demo_jwt_verify token =
     (if token = ''tok1'' then Some \<lparr>jwt_userId = ''u1'', jwt_email = ''ann@example.com''\<rparr>
      else if token = ''tok2'' then Some \<lparr>jwt_userId = ''u2'', jwt_email = ''bob@example.com''\<rparr>
      else None)"

text \<open>A cache that holds the blacklist key of \<open>tok1\<close>, reached and not reached.\<close>

definition demo_blacklist :: Redis where
  "demo_blacklist = \<lparr>isConnected = True,
     entries = [''blacklist:token:tok1'' \<mapsto> (''blacklisted'', Some 86400000)]\<rparr>"

definition demo_blacklist_down :: Redis where
  "demo_blacklist_down = demo_blacklist\<lparr>isConnected := False\<rparr>"

text \<open>
  \<open>bcrypt.compare\<close> on the two stored hashes, tokens that name their user, and session and
  user collections that accept every write.
\<close>

definition demo_compare :: "string \<Rightarrow> string \<Rightarrow> bool" where
  "demo_compare candidate stored =
     ((candidate = ''Secret123'' \<and> stored = password demo_user)
      \<or> (candidate = ''Other1234'' \<and> stored = password demo_banned))"

definition demo_env :: LoginEnv where
  "demo_env = \<lparr>bcrypt_compare = demo_compare,
     jwt_sign = (\<lambda>u. Some (''access-'' @ user_id u, ''refresh-'' @ user_id u)),
     UserSession_create = (\<lambda>uid token now. True),
     User_save = (\<lambda>u. True)\<rparr>"

definition wrong_password :: LoginData where
  "wrong_password = \<lparr>ld_email = ''ann@example.com'', ld_password = ''Guess123''\<rparr>"

definition right_password :: LoginData where
  "right_password = \<lparr>ld_email = ''ann@example.com'', ld_password = ''Secret123''\<rparr>"

definition banned_login :: LoginData where
  "banned_login = \<lparr>ld_email = ''bob@example.com'', ld_password = ''Guess123''\<rparr>"

text \<open>What a login of the first user at instant \<open>now\<close> returns.\<close>

definition demo_auth_result :: "date \<Rightarrow> AuthResult" where
  "demo_auth_result now =
     \<lparr>auth_user = \<lparr>safe_id = ''u1'', safe_email = ''ann@example.com'', safe_status = ACTIVE,
                    safe_lastLoginAt = Some now\<rparr>,
      accessToken = ''access-u1'', refreshToken = ''refresh-u1''\<rparr>"

text \<open>Five attempts one minute apart, the first at instant \<open>0\<close>.\<close>

definition five_attempts :: "LoginData \<Rightarrow> (Store \<times> date \<times> LoginData) list" where
  "five_attempts d = map (\<lambda>t. (demo_user_store, t, d)) [0, 60000, 120000, 180000, 240000]"

text \<open>
  Two recommendation requests that differ in their second category only, the first
  category being a name of 250 letters; two searches for a query of 200 quote characters
  that differ in the page only.
\<close>

definition hot_request :: "string list \<Rightarrow> RecommendationRequest" where
  "hot_request cs = \<lparr>rq_userId = None, rq_dramaId = None, rq_type = HOT, rq_limit = Some 10,
     rq_excludeWatched = Some True, rq_categories = Some cs\<rparr>"

definition long_name :: string where
  "long_name = replicate 250 CHR ''a''"

definition demo_request_a :: RecommendationRequest where
  "demo_request_a = hot_request [long_name]"

definition demo_request_b :: RecommendationRequest where
  "demo_request_b = hot_request [long_name, ''comedy'']"

definition page_filters :: "nat \<Rightarrow> SearchFilters" where
  "page_filters p = \<lparr>sf_type = None, sf_category = None, sf_tags = None, sf_minRating = None,
     sf_maxRating = None, sf_minViewCount = None, sf_maxViewCount = None,
     sf_releaseDateFrom = None, sf_releaseDateTo = None, sf_isHot = None, sf_isNew = None,
     sf_sortBy = None, sf_sortOrder = None, sf_page = Some p, sf_limit = Some 20\<rparr>"

definition quotes_query :: string where
  "quotes_query = replicate 200 (CHR 0x22)"

definition demo_search_a :: SearchRequest where
  "demo_search_a = \<lparr>sr_query = quotes_query, sr_filters = Some (page_filters 1), sr_userId = None\<rparr>"

definition demo_search_b :: SearchRequest where
  "demo_search_b = \<lparr>sr_query = quotes_query, sr_filters = Some (page_filters 2), sr_userId = None\<rparr>"

definition demo_compute :: "RecommendationRequest \<Rightarrow> error + string" where
  "demo_compute request =
     (if rq_categories request = Some [long_name] then Inr ''result for a''
      else Inr ''result for b'')"

definition demo_search_compute :: "SearchRequest \<Rightarrow> error + string" where
  "demo_search_compute request =
     (if sr_filters request = Some (page_filters 1) then Inr ''page one''
      else Inr ''page two'')"

text \<open>A short request of each kind, for the text \<open>JSON.stringify\<close> prints.\<close>

definition demo_request_short :: RecommendationRequest where
  "demo_request_short = \<lparr>rq_userId = Some ''u1'', rq_dramaId = None, rq_type = HOT,
     rq_limit = Some 10, rq_excludeWatched = Some True,
     rq_categories = Some [''romance'', ''comedy'']\<rparr>"

definition demo_search_short :: SearchRequest where
  "demo_search_short = \<lparr>sr_query = ''moon'', sr_filters = Some (page_filters 1),
     sr_userId = Some ''u1''\<rparr>"

section \<open>Sorting with a comparator\<close>








section \<open>Ranking lists\<close>


lemma rank_ranking_item: "rank (ranking_item (i, x)) = Suc i"
  by (simp add: ranking_item_def)














section \<open>Decimal strings\<close>

lemma digit_val_digit_char: "n < 10 \<Longrightarrow> digit_val (digit_char n) = Some n"
proof -
  assume "n < 10"
  then have "n \<in> {0, 1, 2, 3, 4, 5, 6, 7, 8, 9}" by auto
  then show ?thesis
    by (auto simp: digit_val_def digit_char_def)
qed

lemma parse_digits_snoc:
  "list_all (\<lambda>c. digit_val c \<noteq> None) xs \<Longrightarrow> digit_val c = Some d \<Longrightarrow>
   parse_digits acc (xs @ [c]) = parse_digits acc xs * 10 + d"
  by (induction xs arbitrary: acc) auto

lemma toString_nat_digits: "list_all (\<lambda>c. digit_val c \<noteq> None) (toString_nat n)"
proof (induction n rule: toString_nat.induct)
  case (1 n)
  show ?case
  proof (cases "n < 10")
    case True
    then show ?thesis by (subst toString_nat.simps) (simp add: digit_val_digit_char)
  next
    case False
    with 1 show ?thesis
      by (subst toString_nat.simps) (simp add: digit_val_digit_char)
  qed
qed

lemma parse_digits_toString_nat: "parse_digits 0 (toString_nat n) = n"
proof (induction n rule: toString_nat.induct)
  case (1 n)
  show ?case
  proof (cases "n < 10")
    case True
    then show ?thesis by (subst toString_nat.simps) (simp add: digit_val_digit_char)
  next
    case False
    have "parse_digits 0 (toString_nat (n div 10) @ [digit_char (n mod 10)])
            = parse_digits 0 (toString_nat (n div 10)) * 10 + n mod 10"
      using toString_nat_digits [of "n div 10"]
      by (intro parse_digits_snoc) (simp_all add: digit_val_digit_char)
    with 1 False show ?thesis
      by (subst toString_nat.simps) simp
  qed
qed

lemma toString_nat_not_Nil: "toString_nat n \<noteq> []"
  by (subst toString_nat.simps) simp

lemma parseInt_toString_nat: "parseInt (toString_nat n) = Some n"
proof -
  obtain c cs where s: "toString_nat n = c # cs"
    using toString_nat_not_Nil [of n] by (cases "toString_nat n") auto
  with toString_nat_digits [of n] obtain d where "digit_val c = Some d" by auto
  with s show ?thesis
    using parse_digits_toString_nat [of n] by (simp add: parseInt_def)
qed

section \<open>Time decay of the ranking score\<close>

lemma calculateTimeDecay_spec:
  "calculateTimeDecay now (updatedAt drama) type
     = spec_decay_multiplier type (hoursSinceUpdate now drama)"
  by (cases type) (simp_all add: calculateTimeDecay_def spec_decay_multiplier_def hoursSinceUpdate_def)

text \<open>
  C5. The ranking score of a drama is the weighted sum times the decay multiplier times the
  hot and new boosts, rounded to two decimals, where the decay multiplier is
  \<open>max(0.5, 1 - h/48)\<close> for the daily window, \<open>max(0.7, 1 - h/336)\<close> for the weekly window
  and \<open>1\<close> (no decay) for the monthly and all-time windows, \<open>h\<close> being the hours since the
  drama's last update; \<open>calculateTimeDecay\<close> computes exactly that multiplier.
\<close>

theorem ranking_time_decay:
  "calculateTimeDecay now (updatedAt drama) DAILY = max (1 / 2) (1 - hoursSinceUpdate now drama / 48)
   \<and> calculateTimeDecay now (updatedAt drama) WEEKLY = max (7 / 10) (1 - hoursSinceUpdate now drama / 336)
   \<and> calculateRankingScore now drama type
       = math_round (weighted_score drama (adjust_weights type initial_weights)
                      * spec_decay_multiplier type (hoursSinceUpdate now drama)
                      * flag_boost drama * 100) / 100
   \<and> spec_decay_multiplier MONTHLY (hoursSinceUpdate now drama) = 1
   \<and> spec_decay_multiplier ALL_TIME (hoursSinceUpdate now drama) = 1"
proof -
  have decay: "calculateRankingScore now drama type
       = math_round (weighted_score drama (adjust_weights type initial_weights)
                      * spec_decay_multiplier type (hoursSinceUpdate now drama)
                      * flag_boost drama * 100) / 100"
    by (cases type)
       (simp_all add: calculateRankingScore_def Let_def calculateTimeDecay_spec
          spec_decay_multiplier_def flag_boost_def)
  show ?thesis
    using decay
    by (simp add: calculateTimeDecay_spec spec_decay_multiplier_def)
qed

section \<open>Category deletion guard\<close>

lemma deleteCategory_referenced:
  assumes "categories st cid = Some c" and "countDocuments_category st (category_name c) > 0"
  shows "\<exists>e. deleteCategory st r cid = (Inl e, st, r)"
  using assms
  by (cases "store_up st")
     (simp_all add: deleteCategory_def Category_findById_def Category_deleteOne_def Let_def)

lemma deleteCategory_unreferenced:
  assumes "categories st cid = Some c" and "countDocuments_category st (category_name c) = 0"
    and "store_up st"
  shows "deleteCategory st r cid
           = (Inr True, st\<lparr>categories := (categories st)(cid := None)\<rparr>, clearCache r)"
  using assms
  by (simp add: deleteCategory_def Category_findById_def Category_deleteOne_def Let_def)

lemma deleteCategory_True:
  assumes "categories st cid = Some c" and "fst (deleteCategory st r cid) = Inr True"
  shows "countDocuments_category st (category_name c) = 0 \<and> store_up st"
proof (rule ccontr)
  assume "\<not> (countDocuments_category st (category_name c) = 0 \<and> store_up st)"
  then consider "countDocuments_category st (category_name c) > 0" | "\<not> store_up st"
    by auto
  then show False
  proof cases
    case 1
    from deleteCategory_referenced [OF assms(1) 1]
    obtain e where "deleteCategory st r cid = (Inl e, st, r)" by blast
    with assms(2) show False by simp
  next
    case 2
    then have "deleteCategory st r cid = (Inl StoreError, st, r)"
      by (simp add: deleteCategory_def Category_findById_def)
    with assms(2) show False by simp
  qed
qed

text \<open>
  C6. Let \<open>c\<close> be the stored category with id \<open>cid\<close>. When at least one drama's category
  field is \<open>c\<close>'s name, \<open>deleteCategory\<close> ends in an error and leaves the store as it was,
  so \<open>c\<close> is still there. It returns \<open>true\<close> only when no drama references the name, and
  then \<open>c\<close> is gone from the store; and with the database answering and no reference it
  does return \<open>true\<close>.
\<close>

theorem deleteCategory_guard:
  assumes "categories st cid = Some c"
  shows "((\<exists>d \<in> set (dramas st). category d = category_name c) \<longrightarrow>
            (\<exists>e. fst (deleteCategory st r cid) = Inl e)
            \<and> fst (snd (deleteCategory st r cid)) = st
            \<and> categories (fst (snd (deleteCategory st r cid))) cid = Some c)
       \<and> (fst (deleteCategory st r cid) = Inr True \<longrightarrow>
            \<not> (\<exists>d \<in> set (dramas st). category d = category_name c)
            \<and> categories (fst (snd (deleteCategory st r cid))) cid = None)
       \<and> (store_up st \<and> \<not> (\<exists>d \<in> set (dramas st). category d = category_name c) \<longrightarrow>
            fst (deleteCategory st r cid) = Inr True)"
proof -
  have ref: "(\<exists>d \<in> set (dramas st). category d = category_name c)
               \<longleftrightarrow> countDocuments_category st (category_name c) > 0"
    by (auto simp: countDocuments_category_def filter_empty_conv)
  have blocked: "(\<exists>e. fst (deleteCategory st r cid) = Inl e)
            \<and> fst (snd (deleteCategory st r cid)) = st
            \<and> categories (fst (snd (deleteCategory st r cid))) cid = Some c"
    if pos: "countDocuments_category st (category_name c) > 0"
  proof -
    from deleteCategory_referenced [OF assms pos]
    obtain e where "deleteCategory st r cid = (Inl e, st, r)" by blast
    then show ?thesis using assms by simp
  qed
  have removed: "\<not> (\<exists>d \<in> set (dramas st). category d = category_name c)
            \<and> categories (fst (snd (deleteCategory st r cid))) cid = None"
    if t: "fst (deleteCategory st r cid) = Inr True"
  proof -
    from deleteCategory_True [OF assms t]
    have z: "countDocuments_category st (category_name c) = 0" and up: "store_up st"
      by simp_all
    from deleteCategory_unreferenced [OF assms z up] ref z show ?thesis by simp
  qed
  have succeeds: "fst (deleteCategory st r cid) = Inr True"
    if "store_up st" and "\<not> (\<exists>d \<in> set (dramas st). category d = category_name c)"
    using deleteCategory_unreferenced [OF assms _ that(1), of r] that(2) ref by simp
  show ?thesis
  proof (intro conjI impI)
    assume r: "\<exists>d \<in> set (dramas st). category d = category_name c"
    then have pos: "countDocuments_category st (category_name c) > 0" by (simp only: ref)
    from blocked [OF pos] show "\<exists>e. fst (deleteCategory st r cid) = Inl e" by (rule conjunct1)
    from blocked [OF pos] show "fst (snd (deleteCategory st r cid)) = st" by blast
    from blocked [OF pos] show "categories (fst (snd (deleteCategory st r cid))) cid = Some c"
      by blast
  next
    assume t: "fst (deleteCategory st r cid) = Inr True"
    from removed [OF t] show "\<not> (\<exists>d \<in> set (dramas st). category d = category_name c)"
      by (rule conjunct1)
    from removed [OF t] show "categories (fst (snd (deleteCategory st r cid))) cid = None"
      by (rule conjunct2)
  next
    assume "store_up st \<and> \<not> (\<exists>d \<in> set (dramas st). category d = category_name c)"
    then show "fst (deleteCategory st r cid) = Inr True"
      using succeeds by simp
  qed
qed

theorem deleteCategory_guard_witness:
  "categories demo_store ''c1'' = Some \<lparr>category_name = ''romance'', isActive = True\<rparr>
   \<and> (\<exists>d \<in> set (dramas demo_store). category d = ''romance'')
   \<and> fst (deleteCategory demo_store demo_redis ''c1'') = Inl (DeleteBlocked ''romance'' 1)
   \<and> categories (fst (snd (deleteCategory demo_store demo_redis ''c1''))) ''c1''
       = Some \<lparr>category_name = ''romance'', isActive = True\<rparr>
   \<and> categories demo_store ''c2'' = Some \<lparr>category_name = ''comedy'', isActive = True\<rparr>
   \<and> fst (deleteCategory demo_store demo_redis ''c2'') = Inr True
   \<and> categories (fst (snd (deleteCategory demo_store demo_redis ''c2''))) ''c2'' = None"
proof -
  have c1: "categories demo_store ''c1'' = Some \<lparr>category_name = ''romance'', isActive = True\<rparr>"
    by (simp add: demo_store_def)
  have c2: "categories demo_store ''c2'' = Some \<lparr>category_name = ''comedy'', isActive = True\<rparr>"
    by (simp add: demo_store_def)
  have ex: "\<exists>d \<in> set (dramas demo_store). category d = ''romance''"
    by (simp add: demo_store_def demo_drama_def)
  have blocked: "fst (deleteCategory demo_store demo_redis ''c1'') = Inl (DeleteBlocked ''romance'' 1)"
    by (simp add: deleteCategory_def Category_findById_def Category_deleteOne_def
        countDocuments_category_def demo_store_def demo_drama_def)
  have up: "store_up demo_store" by (simp add: demo_store_def)
  have nex: "\<not> (\<exists>d \<in> set (dramas demo_store). category d = ''comedy'')"
    by (simp add: demo_store_def demo_drama_def)
  from deleteCategory_guard [OF c1, of demo_redis] ex c1
  have kept: "categories (fst (snd (deleteCategory demo_store demo_redis ''c1''))) ''c1''
       = Some \<lparr>category_name = ''romance'', isActive = True\<rparr>"
    by simp
  from deleteCategory_guard [OF c2, of demo_redis] up nex
  have gone: "fst (deleteCategory demo_store demo_redis ''c2'') = Inr True
     \<and> categories (fst (snd (deleteCategory demo_store demo_redis ''c2''))) ''c2'' = None"
    by simp
  from c1 c2 ex blocked kept gone show ?thesis by blast
qed

section \<open>Preference updates keep the invariant\<close>


lemma findIndex_holds: "findIndex P xs = Some i \<Longrightarrow> P (xs ! i)"
  by (induction xs arbitrary: i) (auto split: if_splits)


















section \<open>The personalized score\<close>

lemma find_matched_weight:
  "(case find (\<lambda>e. entry_name e = nm) prefs of Some m \<Rightarrow> s + entry_weight m * k | None \<Rightarrow> s)
     = s + matched_weight prefs nm * k"
  by (induction prefs) (auto simp: matched_weight_def)

lemma foldl_add_sum_list:
  fixes f :: "'a \<Rightarrow> real"
  shows "foldl (\<lambda>score x. score + f x) s xs = s + (\<Sum>x \<leftarrow> xs. f x)"
  by (induction xs arbitrary: s) (simp_all add: add.assoc)

lemma foldl_matched_weight:
  "foldl (\<lambda>score nm. case find (\<lambda>e. entry_name e = nm) prefs of
                        Some m \<Rightarrow> score + entry_weight m * k
                      | None \<Rightarrow> score) s names
     = s + (\<Sum>nm \<leftarrow> names. matched_weight prefs nm * k)"
  by (simp only: find_matched_weight foldl_add_sum_list)

text \<open>
  C3. For every drama and every preference record, \<open>calculatePersonalizedScore\<close> is
  \<open>min(100, cw * 40 + sum over the drama's tags of tw * 20 + sum over the drama's cast of
  aw * 15 + max(0, 25 - 5 * |drama.rating - preferredRating|))\<close>, where \<open>cw\<close>, \<open>tw\<close> and
  \<open>aw\<close> are the weights stored for exactly that category, tag or actor name, and \<open>0\<close> when
  the name is not stored.
\<close>

theorem calculatePersonalizedScore_formula:
  "calculatePersonalizedScore drama pref
     = min 100
         (matched_weight (pref_categories pref) (category drama) * 40
          + (\<Sum>tag \<leftarrow> names_of (tags drama). matched_weight (pref_tags pref) tag * 20)
          + (\<Sum>actor \<leftarrow> names_of (cast drama). matched_weight (pref_actors pref) actor * 15)
          + max 0 (25 - 5 * \<bar>rating drama - preferred (ratingRange pref)\<bar>))"
proof -
  have "calculatePersonalizedScore drama pref = spec_personalized_score drama pref"
    by (cases "tags drama"; cases "cast drama")
       (simp_all add: calculatePersonalizedScore_def spec_personalized_score_def Let_def
          names_of_def foldl_matched_weight
          find_matched_weight [where s = 0, simplified] mult.commute)
  then show ?thesis by (simp add: spec_personalized_score_def)
qed

section \<open>The similarity score\<close>

lemma filter_all_members: "list_all (\<lambda>x. x \<in> set t) b \<Longrightarrow> filter (\<lambda>x. x \<in> set t) b = b"
  by (induction b) simp_all

lemma filter_no_members: "list_all (\<lambda>x. x \<notin> set t) b \<Longrightarrow> filter (\<lambda>x. x \<in> set t) b = []"
  by (induction b) simp_all

lemma similarity_full_overlap:
  assumes "category s = category c"
    and "tags s = Some st" and "full_overlap (tags s) (tags c)"
    and "cast s = Some sc" and "full_overlap (cast s) (cast c)"
  shows "calculateSimilarityScore s c
           = min 100 (30 + 10 * real (length st) + 15 * real (length sc)
                      + max 0 (20 - 4 * \<bar>rating s - rating c\<bar>))"
proof -
  from assms(2,3) obtain ct where ct: "tags c = Some ct" "list_all (\<lambda>x. x \<in> set ct) st"
    by (auto simp: full_overlap_def split: option.splits)
  from assms(4,5) obtain cc where cc: "cast c = Some cc" "list_all (\<lambda>x. x \<in> set cc) sc"
    by (auto simp: full_overlap_def split: option.splits)
  show ?thesis
    using assms(1,2,4) ct cc
    by (simp add: calculateSimilarityScore_def Let_def filter_all_members mult.commute)
qed

lemma similarity_unrelated:
  assumes "category s \<noteq> category c"
    and "no_overlap (tags s) (tags c)" and "no_overlap (cast s) (cast c)"
    and "5 \<le> \<bar>rating s - rating c\<bar>"
  shows "calculateSimilarityScore s c = 0"
proof -
  have m: "max 0 (20 - \<bar>rating s - rating c\<bar> * 4) = 0"
    using assms(4) by simp
  show ?thesis
    using assms(1,2,3)
    by (cases "tags s"; cases "tags c"; cases "cast s"; cases "cast c")
       (simp_all add: calculateSimilarityScore_def Let_def no_overlap_def filter_no_members m)
qed

text \<open>
  C2, as the code has it. A candidate with the seed's category that contains every one of
  the seed's \<open>n\<close> tags and \<open>m\<close> cast members scores
  \<open>min(100, 30 + 10 n + 15 m + max(0, 20 - 4 |rating difference|))\<close>; that is the capped
  maximum \<open>100\<close> exactly when \<open>10 n + 15 m + max(0, 20 - 4 |rating difference|)\<close> is at least
  \<open>70\<close>. A candidate with another category, none of the seed's tags, none of its cast and
  a rating at least \<open>5\<close> away scores \<open>0\<close>.
\<close>

theorem calculateSimilarityScore_extremes:
  "(category s = category c \<and> tags s = Some st \<and> full_overlap (tags s) (tags c)
      \<and> cast s = Some sc \<and> full_overlap (cast s) (cast c)
     \<longrightarrow> calculateSimilarityScore s c
           = min 100 (30 + 10 * real (length st) + 15 * real (length sc)
                      + max 0 (20 - 4 * \<bar>rating s - rating c\<bar>))
         \<and> (calculateSimilarityScore s c = 100
              \<longleftrightarrow> 70 \<le> 10 * real (length st) + 15 * real (length sc)
                          + max 0 (20 - 4 * \<bar>rating s - rating c\<bar>)))
   \<and> (category s \<noteq> category c \<and> no_overlap (tags s) (tags c) \<and> no_overlap (cast s) (cast c)
      \<and> 5 \<le> \<bar>rating s - rating c\<bar>
     \<longrightarrow> calculateSimilarityScore s c = 0)"
proof (intro conjI impI)
  assume a: "category s = category c \<and> tags s = Some st \<and> full_overlap (tags s) (tags c)
      \<and> cast s = Some sc \<and> full_overlap (cast s) (cast c)"
  then have eq: "calculateSimilarityScore s c
           = min 100 (30 + 10 * real (length st) + 15 * real (length sc)
                      + max 0 (20 - 4 * \<bar>rating s - rating c\<bar>))"
    using similarity_full_overlap [of s c st sc] by blast
  then show "calculateSimilarityScore s c
           = min 100 (30 + 10 * real (length st) + 15 * real (length sc)
                      + max 0 (20 - 4 * \<bar>rating s - rating c\<bar>))" .
  show "calculateSimilarityScore s c = 100
          \<longleftrightarrow> 70 \<le> 10 * real (length st) + 15 * real (length sc)
                      + max 0 (20 - 4 * \<bar>rating s - rating c\<bar>)"
    unfolding eq by (auto simp: min_def)
next
  assume "category s \<noteq> category c \<and> no_overlap (tags s) (tags c) \<and> no_overlap (cast s) (cast c)
      \<and> 5 \<le> \<bar>rating s - rating c\<bar>"
  then show "calculateSimilarityScore s c = 0"
    using similarity_unrelated [of s c] by blast
qed

theorem calculateSimilarityScore_extremes_witness:
  "category demo_drama = category demo_candidate
   \<and> tags demo_drama = Some [''love''] \<and> full_overlap (tags demo_drama) (tags demo_candidate)
   \<and> cast demo_drama = Some [''Li''] \<and> full_overlap (cast demo_drama) (cast demo_candidate)
   \<and> calculateSimilarityScore demo_drama demo_candidate = 75
   \<and> category demo_drama \<noteq> category demo_unrelated
   \<and> no_overlap (tags demo_drama) (tags demo_unrelated)
   \<and> no_overlap (cast demo_drama) (cast demo_unrelated)
   \<and> 5 \<le> \<bar>rating demo_drama - rating demo_unrelated\<bar>
   \<and> calculateSimilarityScore demo_drama demo_unrelated = 0"
proof -
  have h1: "category demo_drama = category demo_candidate
     \<and> tags demo_drama = Some [''love''] \<and> full_overlap (tags demo_drama) (tags demo_candidate)
     \<and> cast demo_drama = Some [''Li''] \<and> full_overlap (cast demo_drama) (cast demo_candidate)"
    by (simp add: demo_drama_def demo_candidate_def full_overlap_def)
  have h2: "category demo_drama \<noteq> category demo_unrelated
     \<and> no_overlap (tags demo_drama) (tags demo_unrelated)
     \<and> no_overlap (cast demo_drama) (cast demo_unrelated)
     \<and> 5 \<le> \<bar>rating demo_drama - rating demo_unrelated\<bar>"
    by (simp add: demo_drama_def demo_unrelated_def no_overlap_def)
  have r: "rating demo_drama - rating demo_candidate = 0"
    by (simp add: demo_drama_def demo_candidate_def)
  have "calculateSimilarityScore demo_drama demo_candidate
          = min 100 (30 + 10 * real (length [''love'']) + 15 * real (length [''Li''])
                     + max 0 (20 - 4 * \<bar>rating demo_drama - rating demo_candidate\<bar>))"
    using calculateSimilarityScore_extremes
            [of demo_drama demo_candidate "[''love'']" "[''Li'']", THEN conjunct1, THEN mp, OF h1]
    by (rule conjunct1)
  then have s1: "calculateSimilarityScore demo_drama demo_candidate = 75"
    by (simp add: r)
  have s2: "calculateSimilarityScore demo_drama demo_unrelated = 0"
    using calculateSimilarityScore_extremes
            [of demo_drama demo_unrelated "[]" "[]", THEN conjunct2, THEN mp, OF h2] .
  from h1 h2 s1 s2 show ?thesis by blast
qed

text \<open>
  The sentence as the specification has it fails: a candidate with the seed's category,
  all of its tags and all of its cast scores \<open>75\<close>, not \<open>100\<close>, when the seed has one tag
  and one cast member.
\<close>

theorem similarity_identical_counterexample:
  "category demo_drama = category demo_candidate
   \<and> full_overlap (tags demo_drama) (tags demo_candidate)
   \<and> full_overlap (cast demo_drama) (cast demo_candidate)
   \<and> calculateSimilarityScore demo_drama demo_candidate = 75
   \<and> calculateSimilarityScore demo_drama demo_candidate \<noteq> 100"
  by (simp add: calculateSimilarityScore_def demo_drama_def demo_candidate_def
      full_overlap_def Let_def)

section \<open>Access token verification\<close>

lemma verifyAccessToken_returns: "\<exists>v. verifyAccessToken jv st r now token = Inr v"
  by (cases "verifyAccessToken_try jv st r now token") (simp_all add: verifyAccessToken_def)

lemma find_Some_holds: "find P xs = Some x \<Longrightarrow> P x \<and> x \<in> set xs"
  by (induction xs) (auto split: if_splits)

lemma verifyAccessToken_Some:
  assumes "verifyAccessToken jv st r now token = Inr (Some u)"
  shows "status u = ACTIVE \<and> u \<in> set (users st)
         \<and> (\<exists>p. jv token = Some p \<and> user_id u = jwt_userId p)
         \<and> \<not> (isReady r \<and> blacklisted r now token)"
proof -
  from assms have t: "verifyAccessToken_try jv st r now token = Inr (Some u)"
    by (cases "verifyAccessToken_try jv st r now token") (simp_all add: verifyAccessToken_def)
  have nb: "\<not> (isReady r \<and> blacklisted r now token)"
  proof
    assume "isReady r \<and> blacklisted r now token"
    then have "verifyAccessToken_try jv st r now token = Inr None"
      by (auto simp: verifyAccessToken_try_def redis_exists_def isReady_def blacklisted_def)
    with t show False by simp
  qed
  then have gate: "(if isReady r
            then (case redis_exists r now (TOKEN_BLACKLIST_PREFIX @ token) of
                    Inl e \<Rightarrow> Inl e
                  | Inr isBlacklisted \<Rightarrow> Inr (isBlacklisted \<noteq> 0))
            else Inr False) = Inr False"
    by (auto simp: redis_exists_def isReady_def blacklisted_def)
  from t obtain p where p: "jv token = Some p"
    by (cases "jv token") (simp_all add: verifyAccessToken_try_def gate)
  from t p have f: "find (\<lambda>x. user_id x = jwt_userId p) (users st) = Some u \<and> status u = ACTIVE"
    by (auto simp: verifyAccessToken_try_def gate User_findById_def
        split: if_splits option.splits)
  with find_Some_holds [of "\<lambda>x. user_id x = jwt_userId p" "users st" u] p nb
  show ?thesis by simp
qed

lemma verifyAccessToken_blacklisted:
  "isReady r \<Longrightarrow> blacklisted r now token \<Longrightarrow> verifyAccessToken jv st r now token = Inr None"
  by (auto simp: verifyAccessToken_def verifyAccessToken_try_def redis_exists_def isReady_def
      blacklisted_def)

lemma verifyAccessToken_bad_token:
  "jv token = None \<Longrightarrow> verifyAccessToken jv st r now token = Inr None"
  by (auto simp: verifyAccessToken_def verifyAccessToken_try_def redis_exists_def isReady_def
      split: option.splits)

lemma verifyAccessToken_no_user:
  assumes "jv token = Some p"
    and "case find (\<lambda>u. user_id u = jwt_userId p) (users st) of
           None \<Rightarrow> True | Some u \<Rightarrow> status u \<noteq> ACTIVE"
  shows "verifyAccessToken jv st r now token = Inr None"
  using assms
  by (auto simp: verifyAccessToken_def verifyAccessToken_try_def redis_exists_def isReady_def
      User_findById_def split: option.splits)

lemma verifyAccessToken_store_down:
  "\<not> store_up st \<Longrightarrow> verifyAccessToken jv st r now token = Inr None"
  by (auto simp: verifyAccessToken_def verifyAccessToken_try_def redis_exists_def isReady_def
      User_findById_def split: option.splits)

lemma verifyAccessToken_user:
  assumes "\<not> (isReady r \<and> blacklisted r now token)" and "jv token = Some p"
    and "store_up st" and "find (\<lambda>u. user_id u = jwt_userId p) (users st) = Some u"
    and "status u = ACTIVE"
  shows "verifyAccessToken jv st r now token = Inr (Some u)"
  using assms
  by (auto simp: verifyAccessToken_def verifyAccessToken_try_def redis_exists_def isReady_def
      blacklisted_def User_findById_def)

text \<open>
  C10, as the code has it. \<open>verifyAccessToken\<close> never throws: it returns \<open>null\<close> or a user,
  and a user it returns is a stored user with status active whose id the token carries. It
  returns \<open>null\<close> whenever the cache is ready and the token's blacklist key is in it, whenever
  the token fails verification, whenever the user the token refers to does not exist or is
  not active, and whenever the user store cannot be reached. The blacklist is consulted
  only when the cache is ready: in every other case, that is when the cache is not ready or
  the token's key is not in it, a token that verifies and refers to a stored active user
  gets that user, whatever the cache holds.
\<close>

theorem verifyAccessToken_null_cases:
  "(\<exists>v. verifyAccessToken jv st r now token = Inr v)
   \<and> (\<forall>u. verifyAccessToken jv st r now token = Inr (Some u) \<longrightarrow>
          status u = ACTIVE \<and> u \<in> set (users st)
          \<and> (\<exists>p. jv token = Some p \<and> user_id u = jwt_userId p))
   \<and> (isReady r \<and> blacklisted r now token \<longrightarrow> verifyAccessToken jv st r now token = Inr None)
   \<and> (jv token = None \<longrightarrow> verifyAccessToken jv st r now token = Inr None)
   \<and> (\<forall>p. jv token = Some p
          \<and> (case find (\<lambda>u. user_id u = jwt_userId p) (users st) of
                None \<Rightarrow> True | Some u \<Rightarrow> status u \<noteq> ACTIVE)
        \<longrightarrow> verifyAccessToken jv st r now token = Inr None)
   \<and> (\<not> store_up st \<longrightarrow> verifyAccessToken jv st r now token = Inr None)
   \<and> (\<forall>p u. \<not> (isReady r \<and> blacklisted r now token) \<and> jv token = Some p \<and> store_up st
            \<and> find (\<lambda>u. user_id u = jwt_userId p) (users st) = Some u \<and> status u = ACTIVE
        \<longrightarrow> verifyAccessToken jv st r now token = Inr (Some u))"
proof (intro conjI allI impI)
  show "\<exists>v. verifyAccessToken jv st r now token = Inr v"
    by (rule verifyAccessToken_returns)
next
  fix u assume a: "verifyAccessToken jv st r now token = Inr (Some u)"
  from verifyAccessToken_Some [OF a] show "status u = ACTIVE" by blast
  from verifyAccessToken_Some [OF a] show "u \<in> set (users st)" by blast
  from verifyAccessToken_Some [OF a] show "\<exists>p. jv token = Some p \<and> user_id u = jwt_userId p"
    by blast
next
  assume "isReady r \<and> blacklisted r now token"
  then show "verifyAccessToken jv st r now token = Inr None"
    by (simp add: verifyAccessToken_blacklisted)
next
  assume "jv token = None"
  then show "verifyAccessToken jv st r now token = Inr None"
    by (rule verifyAccessToken_bad_token)
next
  fix p
  assume "jv token = Some p
          \<and> (case find (\<lambda>u. user_id u = jwt_userId p) (users st) of
                None \<Rightarrow> True | Some u \<Rightarrow> status u \<noteq> ACTIVE)"
  then show "verifyAccessToken jv st r now token = Inr None"
    using verifyAccessToken_no_user [of jv token p st r now] by blast
next
  assume "\<not> store_up st"
  then show "verifyAccessToken jv st r now token = Inr None"
    by (rule verifyAccessToken_store_down)
next
  fix p u
  assume "\<not> (isReady r \<and> blacklisted r now token) \<and> jv token = Some p \<and> store_up st
          \<and> find (\<lambda>u. user_id u = jwt_userId p) (users st) = Some u \<and> status u = ACTIVE"
  then show "verifyAccessToken jv st r now token = Inr (Some u)"
    using verifyAccessToken_user [of r now token jv p st u] by blast
qed

theorem verifyAccessToken_null_cases_witness:
  "verifyAccessToken demo_jwt_verify demo_user_store demo_redis 0 ''tok1'' = Inr (Some demo_user)
   \<and> status demo_user = ACTIVE
   \<and> isReady demo_blacklist \<and> blacklisted demo_blacklist 0 ''tok1''
   \<and> verifyAccessToken demo_jwt_verify demo_user_store demo_blacklist 0 ''tok1'' = Inr None
   \<and> demo_jwt_verify ''forged'' = None
   \<and> verifyAccessToken demo_jwt_verify demo_user_store demo_redis 0 ''forged'' = Inr None
   \<and> demo_jwt_verify ''tok2'' = Some \<lparr>jwt_userId = ''u2'', jwt_email = ''bob@example.com''\<rparr>
   \<and> verifyAccessToken demo_jwt_verify demo_user_store demo_redis 0 ''tok2'' = Inr None
   \<and> \<not> store_up (demo_user_store\<lparr>store_up := False\<rparr>)
   \<and> verifyAccessToken demo_jwt_verify (demo_user_store\<lparr>store_up := False\<rparr>) demo_redis 0 ''tok1''
       = Inr None
   \<and> \<not> isReady (demo_redis\<lparr>isConnected := False\<rparr>)
   \<and> verifyAccessToken demo_jwt_verify demo_user_store (demo_redis\<lparr>isConnected := False\<rparr>) 0
       ''tok1'' = Inr (Some demo_user)"
proof -
  have p1: "demo_jwt_verify ''tok1'' = Some \<lparr>jwt_userId = ''u1'', jwt_email = ''ann@example.com''\<rparr>"
    by (simp add: demo_jwt_verify_def)
  have up: "store_up demo_user_store"
    by (simp add: demo_user_store_def)
  have found: "find (\<lambda>u. user_id u = jwt_userId \<lparr>jwt_userId = ''u1'', jwt_email = ''ann@example.com''\<rparr>)
                 (users demo_user_store) = Some demo_user"
    by (simp add: demo_user_store_def demo_user_def)
  have active: "status demo_user = ACTIVE"
    by (simp add: demo_user_def)
  have clean: "\<not> (isReady demo_redis \<and> blacklisted demo_redis 0 ''tok1'')"
    by (simp add: demo_redis_def blacklisted_def live_value_def)
  have down: "\<not> isReady (demo_redis\<lparr>isConnected := False\<rparr>)"
    by (simp add: isReady_def)
  have b: "isReady demo_blacklist \<and> blacklisted demo_blacklist 0 ''tok1''"
    by (simp add: demo_blacklist_def isReady_def blacklisted_def live_value_def
        TOKEN_BLACKLIST_PREFIX_def)
  have f: "demo_jwt_verify ''forged'' = None"
    by (simp add: demo_jwt_verify_def)
  have p2: "demo_jwt_verify ''tok2'' = Some \<lparr>jwt_userId = ''u2'', jwt_email = ''bob@example.com''\<rparr>"
    by (simp add: demo_jwt_verify_def)
  have banned: "case find (\<lambda>u. user_id u = jwt_userId \<lparr>jwt_userId = ''u2'', jwt_email = ''bob@example.com''\<rparr>)
                       (users demo_user_store) of
                  None \<Rightarrow> True | Some u \<Rightarrow> status u \<noteq> ACTIVE"
    by (simp add: demo_user_store_def demo_user_def demo_banned_def)
  have nostore: "\<not> store_up (demo_user_store\<lparr>store_up := False\<rparr>)"
    by simp
  note t1 = verifyAccessToken_null_cases
              [of demo_jwt_verify demo_user_store demo_redis 0 "''tok1''"]
  note t2 = verifyAccessToken_null_cases
              [of demo_jwt_verify demo_user_store demo_blacklist 0 "''tok1''"]
  note t3 = verifyAccessToken_null_cases
              [of demo_jwt_verify demo_user_store demo_redis 0 "''forged''"]
  note t4 = verifyAccessToken_null_cases
              [of demo_jwt_verify demo_user_store demo_redis 0 "''tok2''"]
  note t5 = verifyAccessToken_null_cases
              [of demo_jwt_verify "demo_user_store\<lparr>store_up := False\<rparr>" demo_redis 0 "''tok1''"]
  note t6 = verifyAccessToken_null_cases
              [of demo_jwt_verify demo_user_store "demo_redis\<lparr>isConnected := False\<rparr>" 0 "''tok1''"]
  from t1 clean p1 up found active
  have ok: "verifyAccessToken demo_jwt_verify demo_user_store demo_redis 0 ''tok1'' = Inr (Some demo_user)"
    by blast
  from t2 b have n2: "verifyAccessToken demo_jwt_verify demo_user_store demo_blacklist 0 ''tok1'' = Inr None"
    by blast
  from t3 f have n3: "verifyAccessToken demo_jwt_verify demo_user_store demo_redis 0 ''forged'' = Inr None"
    by blast
  from t4 p2 banned
  have n4: "verifyAccessToken demo_jwt_verify demo_user_store demo_redis 0 ''tok2'' = Inr None"
    by blast
  from t5 nostore
  have n5: "verifyAccessToken demo_jwt_verify (demo_user_store\<lparr>store_up := False\<rparr>) demo_redis 0 ''tok1''
              = Inr None"
    by blast
  from t6 down p1 up found active
  have n6: "verifyAccessToken demo_jwt_verify demo_user_store (demo_redis\<lparr>isConnected := False\<rparr>) 0
              ''tok1'' = Inr (Some demo_user)"
    by blast
  from ok active b n2 f n3 p2 n4 nostore n5 down n6 show ?thesis by blast
qed

text \<open>
  The sentence as claimed fails when the cache is not ready: the blacklist key of \<open>tok1\<close>
  is in the cache, the guard \<open>redis.isReady()\<close> skips the lookup, and the user is
  returned.
\<close>

theorem verifyAccessToken_blacklist_counterexample:
  "blacklisted demo_blacklist_down 0 ''tok1''
   \<and> verifyAccessToken demo_jwt_verify demo_user_store demo_blacklist_down 0 ''tok1''
       = Inr (Some demo_user)"
  by (simp add: verifyAccessToken_def verifyAccessToken_try_def demo_jwt_verify_def
      demo_user_store_def demo_blacklist_down_def demo_blacklist_def demo_user_def
      demo_banned_def isReady_def blacklisted_def live_value_def User_findById_def
      TOKEN_BLACKLIST_PREFIX_def)

section \<open>Login lockout\<close>

lemma login_locked:
  assumes "isReady r" and "live_count r now (ld_email d) = Some n" and "5 \<le> n"
  shows "login env st r now d = (Inl LockedOut, r)"
proof -
  from assms(2,3) obtain c where c: "live_value r now (failed_login_key (ld_email d)) = Some c"
    "c \<noteq> []" "parseInt c = Some n"
    by (auto simp: live_count_def split: option.splits if_splits)
  with assms(1,3) have "checkLoginAttempts r now (ld_email d) = Inl LockedOut"
    by (simp add: checkLoginAttempts_def redis_get_def isReady_def MAX_LOGIN_ATTEMPTS_def)
  then show ?thesis by (simp add: login_def)
qed

lemma checkLoginAttempts_error:
  "checkLoginAttempts r now mail = Inl e \<Longrightarrow> e = LockedOut \<or> e = CacheError"
  by (auto simp: checkLoginAttempts_def redis_get_def split: if_splits)

lemma User_findByEmailWithPassword_error:
  "User_findByEmailWithPassword st mail = Inl e \<Longrightarrow> e = StoreError"
  by (simp add: User_findByEmailWithPassword_def split: if_splits)

lemma recordFailedLogin_error: "recordFailedLogin r now mail = Inl e \<Longrightarrow> e = CacheError"
  by (auto simp: recordFailedLogin_def redis_get_def redis_set_def Let_def split: if_splits)

lemma clearFailedLogins_error: "clearFailedLogins r mail = Inl e \<Longrightarrow> e = CacheError"
  by (auto simp: clearFailedLogins_def redis_del_def split: if_splits)

lemma login_LockedOut_count:
  assumes "fst (login env st r now d) = Inl LockedOut"
  shows "\<exists>n. live_count r now (ld_email d) = Some n \<and> 5 \<le> n"
proof -
  have "checkLoginAttempts r now (ld_email d) = Inl LockedOut"
  proof (cases "checkLoginAttempts r now (ld_email d)")
    case (Inl e)
    with assms show ?thesis by (simp add: login_def)
  next
    case (Inr u)
    show ?thesis
    proof (cases "User_findByEmailWithPassword st (ld_email d)")
      case (Inl e)
      with assms Inr User_findByEmailWithPassword_error [OF Inl] show ?thesis
        by (auto simp: login_def)
    next
      case found: (Inr found)
      have "fst (login env st r now d) \<noteq> Inl LockedOut"
      proof (cases "recordFailedLogin r now (ld_email d)")
        case (Inl e)
        from recordFailedLogin_error [OF Inl] have e: "e = CacheError" .
        show ?thesis
        proof (cases "clearFailedLogins r (ld_email d)")
          case cl: (Inl e')
          from clearFailedLogins_error [OF cl] Inr found Inl e cl show ?thesis
            by (auto simp: login_def Let_def split: option.splits if_splits prod.splits)
        next
          case cr: (Inr r2)
          from Inr found Inl e cr show ?thesis
            by (auto simp: login_def Let_def split: option.splits if_splits prod.splits)
        qed
      next
        case rec: (Inr r1)
        show ?thesis
        proof (cases "clearFailedLogins r (ld_email d)")
          case cl: (Inl e')
          from clearFailedLogins_error [OF cl] Inr found rec cl show ?thesis
            by (auto simp: login_def Let_def split: option.splits if_splits prod.splits)
        next
          case cr: (Inr r2)
          from Inr found rec cr show ?thesis
            by (auto simp: login_def Let_def split: option.splits if_splits prod.splits)
        qed
      qed
      with assms show ?thesis by simp
    qed
  qed
  then show ?thesis
    by (auto simp: checkLoginAttempts_def redis_get_def live_count_def MAX_LOGIN_ATTEMPTS_def
        split: if_splits option.splits)
qed

lemma recordFailedLogin_count:
  assumes "isReady r" and "live_count r now mail = Some n"
  shows "recordFailedLogin r now mail
           = Inr (r\<lparr>entries := (entries r)(failed_login_key mail \<mapsto>
                      (toString_nat (n + 1), Some (now + 1000 * int LOCKOUT_DURATION)))\<rparr>)"
  using assms
  by (auto simp: recordFailedLogin_def live_count_def redis_get_def redis_set_def isReady_def
      toString_number_def LOCKOUT_DURATION_def Let_def split: option.splits if_splits)

lemma login_InvalidCredentials:
  assumes "login env st r now d = (Inl InvalidCredentials, r')"
  shows "recordFailedLogin r now (ld_email d) = Inr r'"
proof (cases "checkLoginAttempts r now (ld_email d)")
  case (Inl e)
  with assms checkLoginAttempts_error [OF Inl] show ?thesis
    by (auto simp: login_def)
next
  case (Inr u)
  show ?thesis
  proof (cases "User_findByEmailWithPassword st (ld_email d)")
    case (Inl e)
    with assms Inr User_findByEmailWithPassword_error [OF Inl] show ?thesis
      by (auto simp: login_def)
  next
    case found: (Inr found)
    show ?thesis
    proof (cases "recordFailedLogin r now (ld_email d)")
      case (Inl e)
      from recordFailedLogin_error [OF Inl] have e: "e = CacheError" .
      show ?thesis
      proof (cases "clearFailedLogins r (ld_email d)")
        case cl: (Inl e')
        from clearFailedLogins_error [OF cl] assms Inr found Inl e cl show ?thesis
          by (auto simp: login_def Let_def split: option.splits if_splits prod.splits)
      next
        case cr: (Inr r2)
        from assms Inr found Inl e cr show ?thesis
          by (auto simp: login_def Let_def split: option.splits if_splits prod.splits)
      qed
    next
      case rec: (Inr r1)
      show ?thesis
      proof (cases "clearFailedLogins r (ld_email d)")
        case cl: (Inl e')
        from clearFailedLogins_error [OF cl] assms Inr found rec cl show ?thesis
          by (auto simp: login_def Let_def split: option.splits if_splits prod.splits)
      next
        case cr: (Inr r2)
        from assms Inr found rec cr show ?thesis
          by (auto simp: login_def Let_def split: option.splits if_splits prod.splits)
      qed
    qed
  qed
qed

lemma live_count_after_set:
  assumes "now' < t"
  shows "live_count (r\<lparr>entries := (entries r)(failed_login_key mail \<mapsto> (toString_nat k, Some t))\<rparr>)
           now' mail = Some k"
  using assms
  by (simp add: live_count_def live_value_def toString_nat_not_Nil parseInt_toString_nat)

lemma failed_login_counts:
  assumes "isReady r" and "live_count r now (ld_email d) = Some n"
    and "login env st r now d = (Inl InvalidCredentials, r')"
    and "now' < now + 1000 * int LOCKOUT_DURATION"
  shows "isReady r' \<and> live_count r' now' (ld_email d) = Some (n + 1)"
proof -
  from login_InvalidCredentials [OF assms(3)] recordFailedLogin_count [OF assms(1,2)]
  have "r' = r\<lparr>entries := (entries r)(failed_login_key (ld_email d) \<mapsto>
                      (toString_nat (n + 1), Some (now + 1000 * int LOCKOUT_DURATION)))\<rparr>"
    by simp
  with assms(1,4) show ?thesis
    by (simp add: live_count_after_set isReady_def)
qed

lemma attempt_times_simps:
  "attempt_times [] = []"
  "attempt_times ((st, now, d) # rest) = now # attempt_times rest"
  by (simp_all add: attempt_times_def)

lemma attempts_for_simps:
  "attempts_for mail [] = True"
  "attempts_for mail ((st, now, d) # rest) = (ld_email d = mail \<and> attempts_for mail rest)"
  by (simp_all add: attempts_for_def)

lemma all_fail_simps:
  "all_fail [] = True"
  "all_fail (res # ress) = (res = Inl InvalidCredentials \<and> all_fail ress)"
  by (simp_all add: all_fail_def)

lemma within_lockout_window_Cons:
  assumes "within_lockout_window (a # xs)" and "xs \<noteq> []"
  shows "hd xs < a + 1000 * int LOCKOUT_DURATION \<and> within_lockout_window xs"
  using assms by (cases xs) simp_all

lemma failed_sequence_counts:
  assumes "isReady r"
    and "live_count r (hd (attempt_times attempts @ [t'])) mail = Some n"
    and "attempts_for mail attempts"
    and "all_fail (fst (login_attempts env r attempts))"
    and "within_lockout_window (attempt_times attempts @ [t'])"
  shows "isReady (snd (login_attempts env r attempts))
         \<and> live_count (snd (login_attempts env r attempts)) t' mail = Some (n + length attempts)"
  using assms
proof (induction attempts arbitrary: r n)
  case Nil
  then show ?case by (simp add: attempt_times_simps)
next
  case (Cons a rest)
  obtain st now d where a: "a = (st, now, d)" by (cases a) auto
  obtain res r1 where l: "login env st r now d = (res, r1)" by (cases "login env st r now d") auto
  obtain ress r2 where ls: "login_attempts env r1 rest = (ress, r2)"
    by (cases "login_attempts env r1 rest") auto
  from Cons.prems(3) a have mail: "ld_email d = mail" by (simp add: attempts_for_simps)
  from Cons.prems(4) a l ls have res: "res = Inl InvalidCredentials"
    and ress: "all_fail (fst (login_attempts env r1 rest))"
    by (simp_all add: all_fail_simps)
  let ?next = "hd (attempt_times rest @ [t'])"
  from Cons.prems(5) a
  have w: "?next < now + 1000 * int LOCKOUT_DURATION"
    and ws: "within_lockout_window (attempt_times rest @ [t'])"
    using within_lockout_window_Cons [of now "attempt_times rest @ [t']"]
    by (simp_all add: attempt_times_simps)
  from Cons.prems(2) a mail have c: "live_count r now (ld_email d) = Some n"
    by (simp add: attempt_times_simps)
  from failed_login_counts [OF Cons.prems(1) c _ w, of env st r1] l res mail
  have r1: "isReady r1" and c1: "live_count r1 ?next mail = Some (n + 1)"
    by simp_all
  from Cons.prems(3) a have ms: "attempts_for mail rest" by (simp add: attempts_for_simps)
  from Cons.IH [OF r1 c1 ms ress ws] a l ls show ?case by simp
qed

lemma login_cache_cases:
  "snd (login env st r now d) = r
   \<or> recordFailedLogin r now (ld_email d) = Inr (snd (login env st r now d))
   \<or> clearFailedLogins r (ld_email d) = Inr (snd (login env st r now d))"
  by (auto simp: login_def Let_def split: sum.splits option.splits prod.splits)

lemma login_success_clears:
  assumes "login env st r now d = (Inr u, r')"
  shows "clearFailedLogins r (ld_email d) = Inr r'"
  using assms by (auto simp: login_def Let_def split: sum.splits option.splits if_splits prod.splits)

lemma live_count_cases:
  "live_count r now mail = Some 0 \<or> live_count r now mail = stored_count r mail"
  by (auto simp: live_count_def stored_count_def live_value_def split: option.splits)

lemma stored_count_after_login:
  assumes "isReady r" and "stored_count r (ld_email d) = Some n"
  shows "isReady (snd (login env st r now d))
         \<and> (\<exists>m. stored_count (snd (login env st r now d)) (ld_email d) = Some m \<and> m \<le> n + 1)"
proof -
  let ?r' = "snd (login env st r now d)"
  from login_cache_cases [of env st r now d]
  consider "?r' = r" | "recordFailedLogin r now (ld_email d) = Inr ?r'"
    | "clearFailedLogins r (ld_email d) = Inr ?r'"
    by blast
  then show ?thesis
  proof cases
    case 1
    with assms show ?thesis by simp
  next
    case 2
    from live_count_cases [of r now "ld_email d"] assms(2)
    obtain k where k: "live_count r now (ld_email d) = Some k" "k \<le> n" by auto
    from recordFailedLogin_count [OF assms(1) k(1)] 2
    have "?r' = r\<lparr>entries := (entries r)(failed_login_key (ld_email d) \<mapsto>
                      (toString_nat (k + 1), Some (now + 1000 * int LOCKOUT_DURATION)))\<rparr>"
      by simp
    then have "isReady ?r' \<and> stored_count ?r' (ld_email d) = Some (k + 1)"
      using assms(1)
      by (simp add: stored_count_def isReady_def toString_nat_not_Nil parseInt_toString_nat)
    with k(2) show ?thesis by simp
  next
    case 3
    with assms(1) have "?r' = r\<lparr>entries := (entries r)(failed_login_key (ld_email d) := None)\<rparr>"
      by (simp add: clearFailedLogins_def redis_del_def isReady_def)
    then have "isReady ?r' \<and> stored_count ?r' (ld_email d) = Some 0"
      using assms(1) by (simp add: stored_count_def isReady_def)
    then show ?thesis by simp
  qed
qed

lemma stored_count_after_attempts:
  assumes "isReady r" and "stored_count r mail = Some n"
    and "attempts_for mail attempts"
  shows "isReady (snd (login_attempts env r attempts))
         \<and> (\<exists>m. stored_count (snd (login_attempts env r attempts)) mail = Some m
                \<and> m \<le> n + length attempts)"
  using assms
proof (induction attempts arbitrary: r n)
  case Nil
  then show ?case by simp
next
  case (Cons a rest)
  obtain st now d where a: "a = (st, now, d)" by (cases a) auto
  from Cons.prems(3) a have mail: "ld_email d = mail" by (simp add: attempts_for_simps)
  let ?r1 = "snd (login env st r now d)"
  from stored_count_after_login [OF Cons.prems(1), of d n env st now] Cons.prems(2) mail
  obtain m where r1: "isReady ?r1" and m: "stored_count ?r1 mail = Some m" "m \<le> n + 1"
    by auto
  from Cons.prems(3) a have ms: "attempts_for mail rest" by (simp add: attempts_for_simps)
  from Cons.IH [OF r1 m(1) ms]
  obtain m' where "isReady (snd (login_attempts env ?r1 rest))"
    and "stored_count (snd (login_attempts env ?r1 rest)) mail = Some m'"
    and "m' \<le> m + length rest"
    by auto
  with m(2) a show ?case
    by (auto simp: case_prod_beta Let_def)
qed

lemma lockout_after_five:
  assumes "isReady r" and "length attempts = 5"
    and "attempts_for mail attempts"
    and "live_count r (hd (attempt_times attempts)) mail \<noteq> None"
    and "all_fail (fst (login_attempts env r attempts))"
    and "within_lockout_window (attempt_times attempts @ [now])"
    and "ld_email d = mail"
  shows "login env' st (snd (login_attempts env r attempts)) now d
           = (Inl LockedOut, snd (login_attempts env r attempts))"
proof -
  from assms(2) have ne: "attempts \<noteq> []" by auto
  then have hd: "hd (attempt_times attempts @ [now]) = hd (attempt_times attempts)"
    by (simp add: attempt_times_def)
  from assms(4) obtain n where n: "live_count r (hd (attempt_times attempts)) mail = Some n"
    by auto
  from failed_sequence_counts [OF assms(1) _ assms(3) assms(5) assms(6), of n] n hd
  have "isReady (snd (login_attempts env r attempts))"
    and "live_count (snd (login_attempts env r attempts)) now mail = Some (n + length attempts)"
    by simp_all
  with assms(2,7) show ?thesis
    by (intro login_locked [where n = "n + 5"]) simp_all
qed

lemma no_lockout_below_five:
  assumes "isReady r" and "stored_count r mail = Some 0" and "length attempts < 5"
    and "attempts_for mail attempts"
    and "ld_email d = mail"
  shows "fst (login env' st (snd (login_attempts env r attempts)) now d) \<noteq> Inl LockedOut"
proof
  let ?r' = "snd (login_attempts env r attempts)"
  assume "fst (login env' st ?r' now d) = Inl LockedOut"
  from login_LockedOut_count [OF this] assms(5)
  obtain k where k: "live_count ?r' now mail = Some k" "5 \<le> k" by auto
  from stored_count_after_attempts [OF assms(1,2,4), of env]
  obtain m where m: "stored_count ?r' mail = Some m" "m \<le> length attempts" by auto
  from live_count_cases [of ?r' now mail] k m have "k \<le> m" by auto
  with k(2) m(2) assms(3) show False by simp
qed

lemma success_resets_counter:
  assumes "isReady r" and "login env st r now d = (Inr u, r')"
  shows "entries r' (failed_login_key (ld_email d)) = None
         \<and> stored_count r' (ld_email d) = Some 0 \<and> isReady r'"
proof -
  from login_success_clears [OF assms(2)] assms(1)
  have "r' = r\<lparr>entries := (entries r)(failed_login_key (ld_email d) := None)\<rparr>"
    by (simp add: clearFailedLogins_def redis_del_def isReady_def)
  with assms(1) show ?thesis
    by (simp add: stored_count_def isReady_def)
qed

lemma login_inactive:
  assumes "isReady r" and "store_up st"
    and "find (\<lambda>u. email u = toLowerCase (trim (ld_email d))) (users st) = Some user"
    and "status user \<noteq> ACTIVE"
    and "\<forall>n. live_count r now (ld_email d) = Some n \<longrightarrow> n < 5"
  shows "login env st r now d = (Inl AccountDisabled, r)"
proof -
  have "checkLoginAttempts r now (ld_email d) = Inr ()"
    using assms(1,5)
    by (auto simp: checkLoginAttempts_def redis_get_def isReady_def live_count_def
        MAX_LOGIN_ATTEMPTS_def split: option.splits)
  with assms(2,3,4) show ?thesis
    by (simp add: login_def User_findByEmailWithPassword_def)
qed

lemma login_AccountDisabled_cache:
  "fst (login env st r now d) = Inl AccountDisabled \<Longrightarrow> snd (login env st r now d) = r"
  by (auto simp: login_def Let_def dest: recordFailedLogin_error clearFailedLogins_error
      split: sum.splits option.splits if_splits prod.splits)

lemma login_succeeds:
  assumes "isReady r" and "store_up st"
    and "find (\<lambda>u. email u = toLowerCase (trim (ld_email d))) (users st) = Some user"
    and "status user = ACTIVE"
    and "bcrypt_compare env (ld_password d) (password user)"
    and "\<forall>n. live_count r now (ld_email d) = Some n \<longrightarrow> n < 5"
    and "jwt_sign env user = Some (access, refresh)"
    and "UserSession_create env (user_id user) refresh now"
    and "User_save env (user\<lparr>lastLoginAt := Some now\<rparr>)"
  shows "fst (login env st r now d)
           = Inr \<lparr>auth_user = toSafeObject (user\<lparr>lastLoginAt := Some now\<rparr>),
                  accessToken = access, refreshToken = refresh\<rparr>"
proof -
  have "checkLoginAttempts r now (ld_email d) = Inr ()"
    using assms(1,6)
    by (auto simp: checkLoginAttempts_def redis_get_def isReady_def live_count_def
        MAX_LOGIN_ATTEMPTS_def split: option.splits)
  moreover have "\<exists>r'. clearFailedLogins r (ld_email d) = Inr r'"
    using assms(1) by (simp add: clearFailedLogins_def redis_del_def isReady_def)
  ultimately show ?thesis
    using assms(2,3,4,5,7,8,9)
    by (auto simp: login_def User_findByEmailWithPassword_def Let_def)
qed

text \<open>
  C7, as the code has it. With the cache ready: (1) when five login attempts in a row for
  one email each fail on the credentials (unknown email or wrong password), each made
  less than 15 minutes after the one before it, with a counter that at the first of them
  is absent or a number, then an attempt for that email less than 15 minutes after the
  fifth is rejected with the lockout error whatever the stored users and the password
  are, and leaves the cache as it is; (2) a successful login deletes the counter; (3) from
  a deleted counter, fewer than five attempts of any outcome never cause the next attempt
  to be rejected with the lockout error; (4) an attempt for the email of a stored user
  who is not active, made while the counter is below five, is rejected for the account's
  status, and (5) an attempt rejected for the account's status leaves the cache, and so
  the counter, as it was: it is not counted; (6) an attempt with the password of a stored
  active user, made while the counter is below five, returns the user without the
  password and the two tokens, provided the tokens are signed, the session is created
  and the user is saved.
\<close>

theorem login_lockout:
  assumes "isReady r"
  shows "(length attempts = 5 \<and> attempts_for mail attempts
            \<and> live_count r (hd (attempt_times attempts)) mail \<noteq> None
            \<and> all_fail (fst (login_attempts env r attempts))
            \<and> within_lockout_window (attempt_times attempts @ [now])
            \<and> ld_email d = mail
          \<longrightarrow> login env' st (snd (login_attempts env r attempts)) now d
                = (Inl LockedOut, snd (login_attempts env r attempts)))
       \<and> (login env st r now d = (Inr u, r')
          \<longrightarrow> entries r' (failed_login_key (ld_email d)) = None
              \<and> stored_count r' (ld_email d) = Some 0 \<and> isReady r')
       \<and> (stored_count r mail = Some 0 \<and> length attempts < 5 \<and> attempts_for mail attempts
            \<and> ld_email d = mail
          \<longrightarrow> fst (login env' st (snd (login_attempts env r attempts)) now d) \<noteq> Inl LockedOut)
       \<and> (store_up st
            \<and> find (\<lambda>u. email u = toLowerCase (trim (ld_email d))) (users st) = Some user
            \<and> status user \<noteq> ACTIVE
            \<and> (\<forall>n. live_count r now (ld_email d) = Some n \<longrightarrow> n < 5)
          \<longrightarrow> login env st r now d = (Inl AccountDisabled, r))
       \<and> (fst (login env st r now d) = Inl AccountDisabled \<longrightarrow> snd (login env st r now d) = r)
       \<and> (store_up st
            \<and> find (\<lambda>u. email u = toLowerCase (trim (ld_email d))) (users st) = Some user
            \<and> status user = ACTIVE
            \<and> bcrypt_compare env (ld_password d) (password user)
            \<and> (\<forall>n. live_count r now (ld_email d) = Some n \<longrightarrow> n < 5)
            \<and> jwt_sign env user = Some (access, refresh)
            \<and> UserSession_create env (user_id user) refresh now
            \<and> User_save env (user\<lparr>lastLoginAt := Some now\<rparr>)
          \<longrightarrow> fst (login env st r now d)
                = Inr \<lparr>auth_user = toSafeObject (user\<lparr>lastLoginAt := Some now\<rparr>),
                       accessToken = access, refreshToken = refresh\<rparr>)"
proof (intro conjI impI)
  assume "length attempts = 5 \<and> attempts_for mail attempts
            \<and> live_count r (hd (attempt_times attempts)) mail \<noteq> None
            \<and> all_fail (fst (login_attempts env r attempts))
            \<and> within_lockout_window (attempt_times attempts @ [now])
            \<and> ld_email d = mail"
  then show "login env' st (snd (login_attempts env r attempts)) now d
                = (Inl LockedOut, snd (login_attempts env r attempts))"
    using lockout_after_five [OF assms, of attempts mail env now d env' st] by blast
next
  assume s: "login env st r now d = (Inr u, r')"
  from success_resets_counter [OF assms s]
  show "entries r' (failed_login_key (ld_email d)) = None"
    and "stored_count r' (ld_email d) = Some 0" and "isReady r'"
    by simp_all
next
  assume "stored_count r mail = Some 0 \<and> length attempts < 5 \<and> attempts_for mail attempts
            \<and> ld_email d = mail"
  then show "fst (login env' st (snd (login_attempts env r attempts)) now d) \<noteq> Inl LockedOut"
    using no_lockout_below_five [OF assms, of mail attempts d env' st env now] by blast
next
  assume "store_up st
            \<and> find (\<lambda>u. email u = toLowerCase (trim (ld_email d))) (users st) = Some user
            \<and> status user \<noteq> ACTIVE
            \<and> (\<forall>n. live_count r now (ld_email d) = Some n \<longrightarrow> n < 5)"
  then show "login env st r now d = (Inl AccountDisabled, r)"
    using login_inactive [OF assms, of st d user now env] by blast
next
  assume "fst (login env st r now d) = Inl AccountDisabled"
  then show "snd (login env st r now d) = r"
    by (rule login_AccountDisabled_cache)
next
  assume "store_up st
            \<and> find (\<lambda>u. email u = toLowerCase (trim (ld_email d))) (users st) = Some user
            \<and> status user = ACTIVE
            \<and> bcrypt_compare env (ld_password d) (password user)
            \<and> (\<forall>n. live_count r now (ld_email d) = Some n \<longrightarrow> n < 5)
            \<and> jwt_sign env user = Some (access, refresh)
            \<and> UserSession_create env (user_id user) refresh now
            \<and> User_save env (user\<lparr>lastLoginAt := Some now\<rparr>)"
  then show "fst (login env st r now d)
                = Inr \<lparr>auth_user = toSafeObject (user\<lparr>lastLoginAt := Some now\<rparr>),
                       accessToken = access, refreshToken = refresh\<rparr>"
    using login_succeeds [OF assms, of st d user env now access refresh] by blast
qed

lemma demo_emails_normalized:
  "toLowerCase (trim ''ann@example.com'') = ''ann@example.com''"
  "toLowerCase (trim ''bob@example.com'') = ''bob@example.com''"
  by (simp_all add: toLowerCase_def trim_def is_white_space_def lower_char_def)

lemmas login_eval = login_def checkLoginAttempts_def recordFailedLogin_def clearFailedLogins_def
  User_findByEmailWithPassword_def redis_get_def redis_set_def redis_del_def live_value_def
  isReady_def failed_login_key_def FAILED_LOGIN_PREFIX_def MAX_LOGIN_ATTEMPTS_def
  LOCKOUT_DURATION_def toString_number_def parseInt_def digit_val_def digit_char_def
  demo_user_store_def demo_user_def demo_banned_def demo_redis_def demo_compare_def
  demo_env_def demo_auth_result_def toSafeObject_def demo_emails_normalized
  wrong_password_def right_password_def banned_login_def five_attempts_def
  toString_nat.simps Let_def

lemma five_wrong_passwords:
  "fst (login_attempts demo_env demo_redis (five_attempts wrong_password))
     = [Inl InvalidCredentials, Inl InvalidCredentials, Inl InvalidCredentials,
        Inl InvalidCredentials, Inl InvalidCredentials]"
  by (simp add: login_eval)

theorem login_lockout_witness:
  "isReady demo_redis
   \<and> length (five_attempts wrong_password) = 5
   \<and> attempts_for ''ann@example.com'' (five_attempts wrong_password)
   \<and> all_fail (fst (login_attempts demo_env demo_redis (five_attempts wrong_password)))
   \<and> within_lockout_window (attempt_times (five_attempts wrong_password) @ [300000])
   \<and> fst (login demo_env demo_user_store
            (snd (login_attempts demo_env demo_redis (five_attempts wrong_password)))
            300000 right_password) = Inl LockedOut
   \<and> fst (login demo_env demo_user_store demo_redis 0 right_password) = Inr (demo_auth_result 0)
   \<and> stored_count (snd (login demo_env demo_user_store demo_redis 0 right_password))
        ''ann@example.com'' = Some 0
   \<and> fst (login demo_env demo_user_store
            (snd (login_attempts demo_env demo_redis (take 4 (five_attempts wrong_password))))
            300000 right_password) \<noteq> Inl LockedOut
   \<and> status demo_banned \<noteq> ACTIVE
   \<and> login demo_env demo_user_store demo_redis 0 banned_login = (Inl AccountDisabled, demo_redis)"
proof -
  have ready: "isReady demo_redis"
    by (simp add: demo_redis_def isReady_def)
  have len: "length (five_attempts wrong_password) = 5"
    by (simp add: five_attempts_def)
  have mail: "attempts_for ''ann@example.com'' (five_attempts wrong_password)"
    by (simp add: attempts_for_def five_attempts_def wrong_password_def)
  have start: "live_count demo_redis (hd (attempt_times (five_attempts wrong_password))) ''ann@example.com''
                 \<noteq> None"
    by (simp add: live_count_def live_value_def demo_redis_def)
  have fail: "all_fail (fst (login_attempts demo_env demo_redis (five_attempts wrong_password)))"
    by (simp add: five_wrong_passwords all_fail_def)
  have window: "within_lockout_window (attempt_times (five_attempts wrong_password) @ [300000])"
    by (simp add: attempt_times_def five_attempts_def LOCKOUT_DURATION_def)
  have d: "ld_email right_password = ''ann@example.com''"
    by (simp add: right_password_def)
  have zero: "stored_count demo_redis ''ann@example.com'' = Some 0"
    by (simp add: stored_count_def demo_redis_def)
  have len4: "length (take 4 (five_attempts wrong_password)) < 5"
    by simp
  have mail4: "attempts_for ''ann@example.com'' (take 4 (five_attempts wrong_password))"
    by (simp add: attempts_for_def five_attempts_def wrong_password_def)
  have up: "store_up demo_user_store"
    by (simp add: demo_user_store_def)
  have ann: "find (\<lambda>u. email u = toLowerCase (trim (ld_email right_password))) (users demo_user_store)
               = Some demo_user"
    by (simp add: right_password_def demo_emails_normalized demo_user_store_def demo_user_def)
  have active: "status demo_user = ACTIVE"
    by (simp add: demo_user_def)
  have password: "bcrypt_compare demo_env (ld_password right_password) (password demo_user)"
    by (simp add: demo_env_def demo_compare_def right_password_def)
  have fresh: "\<forall>n. live_count demo_redis 0 (ld_email right_password) = Some n \<longrightarrow> n < 5"
    by (simp add: live_count_def live_value_def demo_redis_def)
  have signed: "jwt_sign demo_env demo_user = Some (''access-u1'', ''refresh-u1'')"
    by (simp add: demo_env_def demo_user_def)
  have session: "UserSession_create demo_env (user_id demo_user) ''refresh-u1'' 0"
    by (simp add: demo_env_def)
  have saved: "User_save demo_env (demo_user\<lparr>lastLoginAt := Some 0\<rparr>)"
    by (simp add: demo_env_def)
  have result: "\<lparr>auth_user = toSafeObject (demo_user\<lparr>lastLoginAt := Some 0\<rparr>),
                  accessToken = ''access-u1'', refreshToken = ''refresh-u1''\<rparr> = demo_auth_result 0"
    by (simp add: demo_auth_result_def toSafeObject_def demo_user_def)
  have bob: "find (\<lambda>u. email u = toLowerCase (trim (ld_email banned_login))) (users demo_user_store)
               = Some demo_banned"
    by (simp add: banned_login_def demo_emails_normalized demo_user_store_def demo_user_def
        demo_banned_def)
  have banned: "status demo_banned \<noteq> ACTIVE"
    by (simp add: demo_banned_def)
  have fresh_bob: "\<forall>n. live_count demo_redis 0 (ld_email banned_login) = Some n \<longrightarrow> n < 5"
    by (simp add: live_count_def live_value_def demo_redis_def)
  note main = login_lockout [OF ready, where mail = "''ann@example.com''" and env = demo_env
      and env' = demo_env and st = demo_user_store]
  from main [where attempts = "five_attempts wrong_password" and now = 300000
               and d = right_password]
    len mail start fail window d
  have locked: "fst (login demo_env demo_user_store
            (snd (login_attempts demo_env demo_redis (five_attempts wrong_password)))
            300000 right_password) = Inl LockedOut"
    by simp
  from main [where attempts = "[]" and now = 0 and d = right_password and user = demo_user
               and access = "''access-u1''" and refresh = "''refresh-u1''"]
    up ann active password fresh signed session saved
  have "fst (login demo_env demo_user_store demo_redis 0 right_password)
          = Inr \<lparr>auth_user = toSafeObject (demo_user\<lparr>lastLoginAt := Some 0\<rparr>),
                 accessToken = ''access-u1'', refreshToken = ''refresh-u1''\<rparr>"
    by blast
  then have ok: "fst (login demo_env demo_user_store demo_redis 0 right_password)
                   = Inr (demo_auth_result 0)"
    by (simp only: result)
  then obtain r' where pair: "login demo_env demo_user_store demo_redis 0 right_password
                                = (Inr (demo_auth_result 0), r')"
    by (cases "login demo_env demo_user_store demo_redis 0 right_password") simp
  from main [where attempts = "[]" and now = 0 and d = right_password
               and u = "demo_auth_result 0" and r' = r'] pair d
  have "stored_count r' ''ann@example.com'' = Some 0"
    by simp
  with pair
  have reset: "stored_count (snd (login demo_env demo_user_store demo_redis 0 right_password))
                 ''ann@example.com'' = Some 0"
    by simp
  from main [where attempts = "take 4 (five_attempts wrong_password)" and now = 300000
               and d = right_password]
    zero len4 mail4 d
  have free: "fst (login demo_env demo_user_store
            (snd (login_attempts demo_env demo_redis (take 4 (five_attempts wrong_password))))
            300000 right_password) \<noteq> Inl LockedOut"
    by blast
  from main [where attempts = "[]" and now = 0 and d = banned_login and user = demo_banned]
    up bob banned fresh_bob
  have disabled: "login demo_env demo_user_store demo_redis 0 banned_login
                    = (Inl AccountDisabled, demo_redis)"
    by blast
  from ready len mail fail window locked ok reset free banned disabled show ?thesis
    by simp
qed

text \<open>
  The sentence as claimed fails in two ways. For an account that is not active, each of
  five attempts in a row fails, none is counted, and the sixth is rejected for the
  account's status, not with the lockout error. And the counter lives for 15 minutes after
  the last failure: after five wrong passwords one minute apart, the last of them at
  instant 240000, the attempt made at instant 1200000, sixteen minutes after the fifth,
  passes the check and, with the right password, logs in.
\<close>

theorem login_lockout_counterexample:
  "fst (login_attempts demo_env demo_redis (five_attempts banned_login))
     = [Inl AccountDisabled, Inl AccountDisabled, Inl AccountDisabled,
        Inl AccountDisabled, Inl AccountDisabled]
   \<and> fst (login demo_env demo_user_store
            (snd (login_attempts demo_env demo_redis (five_attempts banned_login)))
            300000 banned_login) = Inl AccountDisabled
   \<and> fst (login_attempts demo_env demo_redis (five_attempts wrong_password))
     = [Inl InvalidCredentials, Inl InvalidCredentials, Inl InvalidCredentials,
        Inl InvalidCredentials, Inl InvalidCredentials]
   \<and> fst (login demo_env demo_user_store
            (snd (login_attempts demo_env demo_redis (five_attempts wrong_password)))
            1200000 right_password) = Inr (demo_auth_result 1200000)"
  by (simp add: login_eval)

section \<open>Truncated cache keys\<close>

lemma take_long_prefix: "n \<le> length p \<Longrightarrow> take n (p @ x) = take n p"
  by simp

lemma join_Cons: "join sep (x # xs) = x @ (if xs = [] then [] else sep @ join sep xs)"
  by (cases xs) simp_all

lemma json_escape_not_Nil: "json_escape c \<noteq> []"
  by (simp add: json_escape_def)

lemma length_escaped: "length s \<le> length (concat (map json_escape s))"
proof (induction s)
  case Nil
  then show ?case by simp
next
  case (Cons c s)
  have "1 \<le> length (json_escape c)"
    using json_escape_not_Nil [of c] by (cases "json_escape c") simp_all
  with Cons show ?case by simp
qed

lemma length_escaped_quotes: "length (concat (map json_escape (replicate n (CHR 0x22)))) = 2 * n"
  by (induction n) (simp_all add: json_escape_def)

lemma join_snoc: "pre \<noteq> [] \<Longrightarrow> join sep (pre @ [x]) = join sep pre @ sep @ x"
  by (induction sep pre rule: join.induct) (simp_all add: join_Cons)

lemma take_common_prefix: "n \<le> length p \<Longrightarrow> take n (p @ x) = take n (p @ y)"
  by simp

text \<open>
  The serialized request up to the end of its first category, and what follows it.
\<close>

lemma join_after_member:
  "join sep (A @ B @ c # D @ E @ [x]) = join sep (A @ B @ c # D @ E) @ sep @ x"
  using join_snoc [of "A @ B @ c # D @ E" sep x] by simp

lemma recommendation_json_categories:
  "\<exists>head. \<forall>cs. recommendation_json (request\<lparr>rq_categories := Some (nm # cs)\<rparr>)
             = head @ concat (map json_escape nm) @ [CHR 0x22]
               @ (if cs = [] then [] else '','' @ join '','' (map json_string cs)) @ '']}''"
proof -
  let ?head = "''{'' @ join '',''
       (json_member (''userId'', map_option json_string (rq_userId request))
        @ json_member (''dramaId'', map_option json_string (rq_dramaId request))
        @ (json_string ''type'' @ '':'' @ json_string (recommendation_type_value (rq_type request)))
        # json_member (''limit'', map_option toString_nat (rq_limit request))
        @ json_member (''excludeWatched'', map_option json_bool (rq_excludeWatched request)))
       @ '','' @ json_string ''categories'' @ '':'' @ ''['' @ [CHR 0x22]"
  have present: "json_member (k, Some v) = [json_string k @ '':'' @ v]" for k v
    by (simp add: json_member_def)
  have "recommendation_json (request\<lparr>rq_categories := Some (nm # cs)\<rparr>)
             = ?head @ concat (map json_escape nm) @ [CHR 0x22]
               @ (if cs = [] then [] else '','' @ join '','' (map json_string cs)) @ '']}''" for cs
    by (simp add: recommendation_json_def json_object_def present join_after_member
        json_array_def join_Cons json_string_def [of nm])
  then show ?thesis by blast
qed

lemma recommendation_key_long_category:
  assumes "250 \<le> length nm"
  shows "buildCacheKey (request\<lparr>rq_categories := Some (nm # cs)\<rparr>)
           = buildCacheKey (request\<lparr>rq_categories := Some (nm # cs')\<rparr>)"
proof -
  from recommendation_json_categories [where request = request and nm = nm] obtain head
    where shape: "recommendation_json (request\<lparr>rq_categories := Some (nm # cs)\<rparr>)
             = head @ concat (map json_escape nm) @ [CHR 0x22]
               @ (if cs = [] then [] else '','' @ join '','' (map json_string cs)) @ '']}''"
      for cs
    by blast
  have long: "250 \<le> length ((''recommendation'' @ '':'' @ head) @ concat (map json_escape nm))"
    using assms length_escaped [of nm] by simp
  have "buildCacheKey (request\<lparr>rq_categories := Some (nm # ds)\<rparr>)
          = take 250 ((''recommendation'' @ '':'' @ head) @ concat (map json_escape nm))" for ds
  proof -
    have "''recommendation'' @ '':'' @ recommendation_json (request\<lparr>rq_categories := Some (nm # ds)\<rparr>)
            = ((''recommendation'' @ '':'' @ head) @ concat (map json_escape nm))
              @ ([CHR 0x22] @ (if ds = [] then [] else '','' @ join '','' (map json_string ds))
                 @ '']}'')"
      by (simp add: shape [of ds])
    then show ?thesis
      using long by (simp only: buildCacheKey_def Let_def take_long_prefix)
  qed
  then show ?thesis by simp
qed

lemma recommendation_json_more_categories:
  assumes "rest \<noteq> []"
  shows "recommendation_json (request\<lparr>rq_categories := Some [nm]\<rparr>)
           \<noteq> recommendation_json (request\<lparr>rq_categories := Some (nm # rest)\<rparr>)"
proof -
  from recommendation_json_categories [where request = request and nm = nm] obtain head
    where shape: "recommendation_json (request\<lparr>rq_categories := Some (nm # cs)\<rparr>)
             = head @ concat (map json_escape nm) @ [CHR 0x22]
               @ (if cs = [] then [] else '','' @ join '','' (map json_string cs)) @ '']}''"
      for cs
    by blast
  show ?thesis
    using assms by (simp add: shape [of "[]"] shape [of rest])
qed

lemma toString_nat_digit: "n < 10 \<Longrightarrow> toString_nat n = [digit_char n]"
  by (subst toString_nat.simps) simp

lemma filters_json_page_filters:
  "filters_json (page_filters p)
     = ''{'' @ json_string ''page'' @ '':'' @ toString_nat p @ '','' @ json_string ''limit''
       @ '':'' @ toString_nat 20 @ ''}''"
  by (simp add: filters_json_def page_filters_def json_object_def json_member_def)

lemma search_json_shape:
  "search_json \<lparr>sr_query = query, sr_filters = Some f, sr_userId = u\<rparr>
     = (''{'' @ json_string ''query'' @ '':'' @ [CHR 0x22]) @ concat (map json_escape query)
       @ [CHR 0x22] @ '','' @ json_string ''filters'' @ '':'' @ filters_json f @ ''}''"
  by (simp add: search_json_def json_object_def json_member_def json_string_def [of query])

lemma search_json_differs:
  "filters_json f \<noteq> filters_json f' \<Longrightarrow>
   search_json \<lparr>sr_query = query, sr_filters = Some f, sr_userId = u\<rparr>
     \<noteq> search_json \<lparr>sr_query = query, sr_filters = Some f', sr_userId = u'\<rparr>"
  by (simp add: search_json_shape)

lemma search_key_long_query:
  assumes "226 \<le> length (concat (map json_escape query))"
  shows "search_buildCacheKey \<lparr>sr_query = query, sr_filters = Some f, sr_userId = u\<rparr>
           = search_buildCacheKey \<lparr>sr_query = query, sr_filters = Some f', sr_userId = u'\<rparr>"
proof -
  let ?q = "(''search:result'' @ '':'' @ ''{'' @ json_string ''query'' @ '':'' @ [CHR 0x22])
              @ concat (map json_escape query)"
  have long: "250 \<le> length ?q"
    using assms by (simp add: json_string_def json_escape_def)
  have "search_buildCacheKey \<lparr>sr_query = query, sr_filters = Some g, sr_userId = v\<rparr>
          = take 250 ?q" for g v
  proof -
    have "''search:result'' @ '':'' @ search_json \<lparr>sr_query = query, sr_filters = Some g, sr_userId = v\<rparr>
            = ?q @ ([CHR 0x22] @ '','' @ json_string ''filters'' @ '':'' @ filters_json g @ ''}'')"
      by (simp add: search_json_shape)
    then show ?thesis
      using long by (simp only: search_buildCacheKey_def Let_def take_long_prefix)
  qed
  then show ?thesis by simp
qed

lemma getRecommendations_miss:
  assumes "isReady r" and "live_value r now (buildCacheKey a) = None"
    and "compute a = Inr result"
  shows "getRecommendations compute r now a
           = (Inr result,
              r\<lparr>entries := (entries r)(buildCacheKey a \<mapsto>
                   (result, Some (now + 1000 * int RECOMMENDATION_CACHE_TTL)))\<rparr>)"
  using assms
  by (simp add: getRecommendations_def redis_get_def redis_set_def isReady_def Let_def
      RECOMMENDATION_CACHE_TTL_def)

lemma getRecommendations_hit:
  assumes "isReady r" and "live_value r now (buildCacheKey b) = Some cached" and "cached \<noteq> []"
  shows "getRecommendations compute r now b = (Inr cached, r)"
  using assms
  by (simp add: getRecommendations_def redis_get_def isReady_def Let_def)

lemma second_request_served_from_cache:
  assumes "isReady r" and "live_value r now (buildCacheKey a) = None"
    and "compute a = Inr result" and "result \<noteq> []"
    and "buildCacheKey b = buildCacheKey a"
    and "now' < now + 1000 * int RECOMMENDATION_CACHE_TTL"
  shows "fst (getRecommendations compute (snd (getRecommendations compute r now a)) now' b)
           = Inr result"
proof -
  let ?r' = "r\<lparr>entries := (entries r)(buildCacheKey a \<mapsto>
                   (result, Some (now + 1000 * int RECOMMENDATION_CACHE_TTL)))\<rparr>"
  have r': "snd (getRecommendations compute r now a) = ?r'"
    using getRecommendations_miss [where compute = compute and a = a, OF assms(1,2,3)] by simp
  have "isReady ?r'" using assms(1) by (simp add: isReady_def)
  moreover have "live_value ?r' now' (buildCacheKey b) = Some result"
    using assms(5,6) by (simp add: live_value_def)
  ultimately have "getRecommendations compute ?r' now' b = (Inr result, ?r')"
    using assms(4) by (rule getRecommendations_hit)
  with r' show ?thesis by simp
qed

lemma search_miss:
  assumes "isReady r" and "live_value r now (search_buildCacheKey a) = None"
    and "compute a = Inr result"
  shows "search compute r now a
           = (Inr result,
              r\<lparr>entries := (entries r)(search_buildCacheKey a \<mapsto>
                   (result, Some (now + 1000 * int SEARCH_CACHE_TTL)))\<rparr>)"
  using assms
  by (simp add: search_def redis_get_def redis_set_def isReady_def Let_def SEARCH_CACHE_TTL_def)

lemma search_hit:
  assumes "isReady r" and "live_value r now (search_buildCacheKey b) = Some cached"
    and "cached \<noteq> []"
  shows "search compute r now b = (Inr cached, r)"
  using assms
  by (simp add: search_def redis_get_def isReady_def Let_def)

lemma second_search_served_from_cache:
  assumes "isReady r" and "live_value r now (search_buildCacheKey a) = None"
    and "compute a = Inr result" and "result \<noteq> []"
    and "search_buildCacheKey b = search_buildCacheKey a"
    and "now' < now + 1000 * int SEARCH_CACHE_TTL"
  shows "fst (search compute (snd (search compute r now a)) now' b) = Inr result"
proof -
  let ?r' = "r\<lparr>entries := (entries r)(search_buildCacheKey a \<mapsto>
                   (result, Some (now + 1000 * int SEARCH_CACHE_TTL)))\<rparr>"
  have r': "snd (search compute r now a) = ?r'"
    using search_miss [where compute = compute and a = a, OF assms(1,2,3)] by simp
  have "isReady ?r'" using assms(1) by (simp add: isReady_def)
  moreover have "live_value ?r' now' (search_buildCacheKey b) = Some result"
    using assms(5,6) by (simp add: live_value_def)
  ultimately have "search compute ?r' now' b = (Inr result, ?r')"
    using assms(4) by (rule search_hit)
  with r' show ?thesis by simp
qed

text \<open>
  C9. Both builders return the first 250 characters of the prefix followed by the
  serialized request, so a key has at most 250 characters and the builders are not
  injective on the serialized requests: two recommendation requests that agree except in
  their categories, whose first category is the same name of 250 characters or more and
  of which one has further categories, are serialized differently and have the same key;
  two searches for the same query whose escaped text has 226 characters or more, with
  filters that are serialized differently, are serialized differently and have the same
  key. When two requests have the same key and the cache is ready, the second request,
  made within the time for which the first result is cached (an hour for
  recommendations, half an hour for searches), is answered with the result computed for
  the first.
\<close>

theorem cache_keys_not_injective:
  "buildCacheKey request = take 250 (''recommendation:'' @ recommendation_json request)
   \<and> search_buildCacheKey srequest = take 250 (''search:result:'' @ search_json srequest)
   \<and> length (buildCacheKey request) \<le> 250 \<and> length (search_buildCacheKey srequest) \<le> 250
   \<and> (\<forall>nm rest. 250 \<le> length nm \<and> rest \<noteq> [] \<longrightarrow>
          recommendation_json (request\<lparr>rq_categories := Some [nm]\<rparr>)
            \<noteq> recommendation_json (request\<lparr>rq_categories := Some (nm # rest)\<rparr>)
          \<and> buildCacheKey (request\<lparr>rq_categories := Some [nm]\<rparr>)
              = buildCacheKey (request\<lparr>rq_categories := Some (nm # rest)\<rparr>))
   \<and> (\<forall>query f f' u u'.
          226 \<le> length (concat (map json_escape query)) \<and> filters_json f \<noteq> filters_json f' \<longrightarrow>
          search_json \<lparr>sr_query = query, sr_filters = Some f, sr_userId = u\<rparr>
            \<noteq> search_json \<lparr>sr_query = query, sr_filters = Some f', sr_userId = u'\<rparr>
          \<and> search_buildCacheKey \<lparr>sr_query = query, sr_filters = Some f, sr_userId = u\<rparr>
              = search_buildCacheKey \<lparr>sr_query = query, sr_filters = Some f', sr_userId = u'\<rparr>)
   \<and> (\<exists>a b. recommendation_json a \<noteq> recommendation_json b \<and> buildCacheKey a = buildCacheKey b)
   \<and> (\<exists>a b. search_json a \<noteq> search_json b \<and> search_buildCacheKey a = search_buildCacheKey b)
   \<and> (isReady r \<and> live_value r now (buildCacheKey a) = None
        \<and> compute a = Inr result \<and> result \<noteq> []
        \<and> buildCacheKey b = buildCacheKey a
        \<and> now' < now + 1000 * int RECOMMENDATION_CACHE_TTL
       \<longrightarrow> fst (getRecommendations compute (snd (getRecommendations compute r now a)) now' b)
             = Inr result)
   \<and> (isReady r \<and> live_value r now (search_buildCacheKey sa) = None
        \<and> scompute sa = Inr sresult \<and> sresult \<noteq> []
        \<and> search_buildCacheKey sb = search_buildCacheKey sa
        \<and> now' < now + 1000 * int SEARCH_CACHE_TTL
       \<longrightarrow> fst (search scompute (snd (search scompute r now sa)) now' sb) = Inr sresult)"
proof (intro conjI impI allI)
  show "buildCacheKey request = take 250 (''recommendation:'' @ recommendation_json request)"
    by (simp add: buildCacheKey_def)
  show "search_buildCacheKey srequest = take 250 (''search:result:'' @ search_json srequest)"
    by (simp add: search_buildCacheKey_def)
  show "length (buildCacheKey request) \<le> 250"
    by (simp add: buildCacheKey_def)
  show "length (search_buildCacheKey srequest) \<le> 250"
    by (simp add: search_buildCacheKey_def)
  show "\<exists>a b. recommendation_json a \<noteq> recommendation_json b \<and> buildCacheKey a = buildCacheKey b"
  proof (intro exI conjI)
    show "recommendation_json (request\<lparr>rq_categories := Some [long_name]\<rparr>)
            \<noteq> recommendation_json (request\<lparr>rq_categories := Some (long_name # [''comedy''])\<rparr>)"
      by (rule recommendation_json_more_categories) simp
    have "250 \<le> length long_name" by (simp add: long_name_def)
    then show "buildCacheKey (request\<lparr>rq_categories := Some [long_name]\<rparr>)
            = buildCacheKey (request\<lparr>rq_categories := Some (long_name # [''comedy''])\<rparr>)"
      by (rule recommendation_key_long_category)
  qed
  show "\<exists>a b. search_json a \<noteq> search_json b \<and> search_buildCacheKey a = search_buildCacheKey b"
  proof (intro exI conjI)
    have "filters_json (page_filters 1) \<noteq> filters_json (page_filters 2)"
      by (simp add: filters_json_page_filters toString_nat_digit digit_char_def)
    then show "search_json \<lparr>sr_query = quotes_query, sr_filters = Some (page_filters 1), sr_userId = None\<rparr>
            \<noteq> search_json \<lparr>sr_query = quotes_query, sr_filters = Some (page_filters 2), sr_userId = None\<rparr>"
      by (rule search_json_differs)
    have "226 \<le> length (concat (map json_escape quotes_query))"
      unfolding quotes_query_def length_escaped_quotes by simp
    then show "search_buildCacheKey \<lparr>sr_query = quotes_query, sr_filters = Some (page_filters 1), sr_userId = None\<rparr>
            = search_buildCacheKey \<lparr>sr_query = quotes_query, sr_filters = Some (page_filters 2), sr_userId = None\<rparr>"
      by (rule search_key_long_query)
  qed
next
  fix nm :: string and rest :: "string list"
  assume h: "250 \<le> length nm \<and> rest \<noteq> []"
  then show "recommendation_json (request\<lparr>rq_categories := Some [nm]\<rparr>)
            \<noteq> recommendation_json (request\<lparr>rq_categories := Some (nm # rest)\<rparr>)"
    by (simp add: recommendation_json_more_categories)
  from h show "buildCacheKey (request\<lparr>rq_categories := Some [nm]\<rparr>)
              = buildCacheKey (request\<lparr>rq_categories := Some (nm # rest)\<rparr>)"
    by (simp add: recommendation_key_long_category)
next
  fix query f f' u u'
  assume h: "226 \<le> length (concat (map json_escape query)) \<and> filters_json f \<noteq> filters_json f'"
  then show "search_json \<lparr>sr_query = query, sr_filters = Some f, sr_userId = u\<rparr>
            \<noteq> search_json \<lparr>sr_query = query, sr_filters = Some f', sr_userId = u'\<rparr>"
    by (simp add: search_json_differs)
  from h show "search_buildCacheKey \<lparr>sr_query = query, sr_filters = Some f, sr_userId = u\<rparr>
              = search_buildCacheKey \<lparr>sr_query = query, sr_filters = Some f', sr_userId = u'\<rparr>"
    by (simp add: search_key_long_query)
next
  assume "isReady r \<and> live_value r now (buildCacheKey a) = None
        \<and> compute a = Inr result \<and> result \<noteq> []
        \<and> buildCacheKey b = buildCacheKey a
        \<and> now' < now + 1000 * int RECOMMENDATION_CACHE_TTL"
  then show "fst (getRecommendations compute (snd (getRecommendations compute r now a)) now' b)
             = Inr result"
    using second_request_served_from_cache [of r now a compute result b now'] by blast
next
  assume "isReady r \<and> live_value r now (search_buildCacheKey sa) = None
        \<and> scompute sa = Inr sresult \<and> sresult \<noteq> []
        \<and> search_buildCacheKey sb = search_buildCacheKey sa
        \<and> now' < now + 1000 * int SEARCH_CACHE_TTL"
  then show "fst (search scompute (snd (search scompute r now sa)) now' sb) = Inr sresult"
    using second_search_served_from_cache [of r now sa scompute sresult sb now'] by blast
qed

lemma toString_nat_two_digits:
  "10 \<le> n \<Longrightarrow> n < 100 \<Longrightarrow> toString_nat n = [digit_char (n div 10), digit_char (n mod 10)]"
  by (subst toString_nat.simps) (simp add: toString_nat_digit)

theorem cache_keys_not_injective_witness:
  \<open>recommendation_json demo_request_short
     = ''{"userId":"u1","type":"hot","limit":10,"excludeWatched":true,"categories":["romance","comedy"]}''
   \<and> buildCacheKey demo_request_short
     = ''recommendation:{"userId":"u1","type":"hot","limit":10,"excludeWatched":true,"categories":["romance","comedy"]}''
   \<and> search_json demo_search_short = ''{"query":"moon","filters":{"page":1,"limit":20}}''
   \<and> search_buildCacheKey demo_search_short
     = ''search:result:{"query":"moon","filters":{"page":1,"limit":20}}''
   \<and> recommendation_json demo_request_a \<noteq> recommendation_json demo_request_b
   \<and> buildCacheKey demo_request_b = buildCacheKey demo_request_a
   \<and> search_json demo_search_a \<noteq> search_json demo_search_b
   \<and> search_buildCacheKey demo_search_b = search_buildCacheKey demo_search_a
   \<and> isReady demo_redis
   \<and> live_value demo_redis 0 (buildCacheKey demo_request_a) = None
   \<and> demo_compute demo_request_a = Inr ''result for a''
   \<and> demo_compute demo_request_b = Inr ''result for b''
   \<and> fst (getRecommendations demo_compute
            (snd (getRecommendations demo_compute demo_redis 0 demo_request_a))
            1800000 demo_request_b) = Inr ''result for a''
   \<and> live_value demo_redis 0 (search_buildCacheKey demo_search_a) = None
   \<and> demo_search_compute demo_search_a = Inr ''page one''
   \<and> demo_search_compute demo_search_b = Inr ''page two''
   \<and> fst (search demo_search_compute (snd (search demo_search_compute demo_redis 0 demo_search_a))
            900000 demo_search_b) = Inr ''page one''\<close>
proof -
  have ten: "toString_nat 10 = ''10''" and twenty: "toString_nat 20 = ''20''"
    by (simp_all add: toString_nat_two_digits digit_char_def)
  have one: "toString_nat (Suc 0) = ''1''"
    by (subst toString_nat.simps) (simp add: digit_char_def)
  have two: "toString_nat 2 = ''2''"
    by (subst toString_nat.simps) (simp add: digit_char_def)
  have pin1: \<open>recommendation_json demo_request_short
     = ''{"userId":"u1","type":"hot","limit":10,"excludeWatched":true,"categories":["romance","comedy"]}''\<close>
    by (simp add: demo_request_short_def recommendation_json_def json_object_def json_member_def
        json_string_def json_escape_def json_array_def json_bool_def ten)
  have pin2: \<open>search_json demo_search_short = ''{"query":"moon","filters":{"page":1,"limit":20}}''\<close>
    by (simp add: demo_search_short_def search_json_def filters_json_def page_filters_def
        json_object_def json_member_def json_string_def json_escape_def one twenty)
  note t = cache_keys_not_injective
             [where request = demo_request_short and srequest = demo_search_short]
  from t have "buildCacheKey demo_request_short
                 = take 250 (''recommendation:'' @ recommendation_json demo_request_short)"
    by (rule conjunct1)
  then have pin3: \<open>buildCacheKey demo_request_short
     = ''recommendation:{"userId":"u1","type":"hot","limit":10,"excludeWatched":true,"categories":["romance","comedy"]}''\<close>
    by (simp add: pin1)
  from t have "search_buildCacheKey demo_search_short
                 = take 250 (''search:result:'' @ search_json demo_search_short)"
    by blast
  then have pin4: \<open>search_buildCacheKey demo_search_short
     = ''search:result:{"query":"moon","filters":{"page":1,"limit":20}}''\<close>
    by (simp add: pin2)
  have a: "hot_request []\<lparr>rq_categories := Some [long_name]\<rparr> = demo_request_a"
    and b: "hot_request []\<lparr>rq_categories := Some (long_name # [''comedy''])\<rparr> = demo_request_b"
    by (simp_all add: demo_request_a_def demo_request_b_def hot_request_def)
  have name: "250 \<le> length long_name \<and> [''comedy''] \<noteq> []"
    by (simp add: long_name_def)
  note u = cache_keys_not_injective
             [where request = "hot_request []" and r = demo_redis and now = 0
                and a = demo_request_a and b = demo_request_b and compute = demo_compute
                and result = "''result for a''" and now' = 1800000]
  from u name
  have "recommendation_json (hot_request []\<lparr>rq_categories := Some [long_name]\<rparr>)
          \<noteq> recommendation_json (hot_request []\<lparr>rq_categories := Some (long_name # [''comedy''])\<rparr>)
        \<and> buildCacheKey (hot_request []\<lparr>rq_categories := Some [long_name]\<rparr>)
          = buildCacheKey (hot_request []\<lparr>rq_categories := Some (long_name # [''comedy''])\<rparr>)"
    by blast
  then have "recommendation_json demo_request_a \<noteq> recommendation_json demo_request_b
        \<and> buildCacheKey demo_request_a = buildCacheKey demo_request_b"
    unfolding a b .
  then have ne: "recommendation_json demo_request_a \<noteq> recommendation_json demo_request_b"
    and eq: "buildCacheKey demo_request_b = buildCacheKey demo_request_a"
    by simp_all
  have query: "226 \<le> length (concat (map json_escape quotes_query))
               \<and> filters_json (page_filters 1) \<noteq> filters_json (page_filters 2)"
    unfolding quotes_query_def length_escaped_quotes
    by (simp add: filters_json_page_filters one two)
  note v = cache_keys_not_injective
             [where r = demo_redis and now = 0 and sa = demo_search_a and sb = demo_search_b
                and scompute = demo_search_compute and sresult = "''page one''"
                and now' = 900000]
  from v query
  have "search_json \<lparr>sr_query = quotes_query, sr_filters = Some (page_filters 1), sr_userId = None\<rparr>
          \<noteq> search_json \<lparr>sr_query = quotes_query, sr_filters = Some (page_filters 2), sr_userId = None\<rparr>
        \<and> search_buildCacheKey \<lparr>sr_query = quotes_query, sr_filters = Some (page_filters 1), sr_userId = None\<rparr>
          = search_buildCacheKey \<lparr>sr_query = quotes_query, sr_filters = Some (page_filters 2), sr_userId = None\<rparr>"
    by blast
  then have "search_json demo_search_a \<noteq> search_json demo_search_b
        \<and> search_buildCacheKey demo_search_a = search_buildCacheKey demo_search_b"
    unfolding demo_search_a_def demo_search_b_def .
  then have sne: "search_json demo_search_a \<noteq> search_json demo_search_b"
    and seq: "search_buildCacheKey demo_search_b = search_buildCacheKey demo_search_a"
    by simp_all
  have ready: "isReady demo_redis"
    by (simp add: demo_redis_def isReady_def)
  have miss: "live_value demo_redis 0 (buildCacheKey demo_request_a) = None"
    by (simp add: demo_redis_def live_value_def)
  have ca: "demo_compute demo_request_a = Inr ''result for a''"
    by (simp add: demo_compute_def demo_request_a_def hot_request_def)
  have cb: "demo_compute demo_request_b = Inr ''result for b''"
    by (simp add: demo_compute_def demo_request_b_def hot_request_def)
  have ttl: "(1800000::int) < 0 + 1000 * int RECOMMENDATION_CACHE_TTL"
    by (simp add: RECOMMENDATION_CACHE_TTL_def)
  from u ready miss ca eq ttl
  have served: "fst (getRecommendations demo_compute
            (snd (getRecommendations demo_compute demo_redis 0 demo_request_a))
            1800000 demo_request_b) = Inr ''result for a''"
    by simp
  have smiss: "live_value demo_redis 0 (search_buildCacheKey demo_search_a) = None"
    by (simp add: demo_redis_def live_value_def)
  have sca: "demo_search_compute demo_search_a = Inr ''page one''"
    by (simp add: demo_search_compute_def demo_search_a_def)
  have scb: "demo_search_compute demo_search_b = Inr ''page two''"
    by (simp add: demo_search_compute_def demo_search_b_def page_filters_def)
  have sttl: "(900000::int) < 0 + 1000 * int SEARCH_CACHE_TTL"
    by (simp add: SEARCH_CACHE_TTL_def)
  from v ready smiss sca seq sttl
  have sserved: "fst (search demo_search_compute
            (snd (search demo_search_compute demo_redis 0 demo_search_a))
            900000 demo_search_b) = Inr ''page one''"
    by simp
  from pin1 pin3 pin2 pin4 ne eq sne seq ready miss ca cb served smiss sca scb sserved
  show ?thesis by blast
qed

section \<open>The Levenshtein recurrence\<close>

lemma lev_Nil2: "lev xs [] = length xs"
  by (cases xs) simp_all

lemma lev_sym: "lev xs ys = lev ys xs"
proof (induction xs ys rule: lev.induct)
  case (1 ys)
  then show ?case by (simp add: lev_Nil2)
next
  case (2 v va)
  then show ?case by simp
next
  case (3 x xs y ys)
  show ?case
  proof (cases "x = y")
    case True
    with 3 show ?thesis by simp
  next
    case False
    then have "y \<noteq> x" by simp
    with False 3 show ?thesis by (simp add: min.commute)
  qed
qed

lemma lev_single: "lev [x] ys = (if x \<in> set ys then length ys - 1 else max 1 (length ys))"
proof (induction ys)
  case Nil
  then show ?case by simp
next
  case (Cons b ys)
  show ?case
  proof (cases "x = b")
    case True
    then show ?thesis by simp
  next
    case False
    show ?thesis
    proof (cases "x \<in> set ys")
      case True
      then have "0 < length ys" by (rule length_pos_if_in_set)
      then have "min (length ys) (min (Suc (length ys)) (length ys - 1)) = length ys - 1"
        and "Suc (length ys - 1) = length ys"
        by simp_all
      with Cons True False show ?thesis by simp
    next
      case False
      then have "lev [x] ys = max 1 (length ys)" using Cons by simp
      then have "min (length ys) (min (Suc (length ys)) (lev [x] ys)) = length ys"
        by simp
      with False \<open>x \<noteq> b\<close> show ?thesis by simp
    qed
  qed
qed

lemma lev_single_snoc:
  "lev [x] (ys @ [y]) = (if x = y then lev [] ys else 1 + min (lev [] ys) (min (lev [] (ys @ [y])) (lev [x] ys)))"
proof (cases "x = y")
  case True
  then show ?thesis by (simp add: lev_single)
next
  case False
  show ?thesis
  proof (cases "x \<in> set ys")
    case True
    then have "0 < length ys" by (rule length_pos_if_in_set)
    then have "min (length ys) (min (Suc (length ys)) (length ys - 1)) = length ys - 1"
      and "Suc (length ys - 1) = length ys"
      by simp_all
    with True False show ?thesis by (simp add: lev_single)
  next
    case nin: False
    have "min (length ys) (min (Suc (length ys)) (max 1 (length ys))) = length ys"
      by simp
    with nin False show ?thesis by (simp add: lev_single)
  qed
qed

lemma lev_snoc_single:
  "lev (xs @ [x]) [y] = (if x = y then lev xs [] else 1 + min (lev xs []) (min (lev xs [y]) (lev (xs @ [x]) [])))"
proof -
  have "lev (xs @ [x]) [y] = lev [y] (xs @ [x])" by (rule lev_sym)
  also have "\<dots> = (if y = x then lev [] xs else 1 + min (lev [] xs) (min (lev [] (xs @ [x])) (lev [y] xs)))"
    by (rule lev_single_snoc)
  also have "\<dots> = (if x = y then lev xs [] else 1 + min (lev xs []) (min (lev xs [y]) (lev (xs @ [x]) [])))"
    by (simp add: lev_sym [of "[y]" xs] lev_Nil2 min.commute min.left_commute)
  finally show ?thesis .
qed

lemma plus_min: "(k::nat) + min a b = min (k + a) (k + b)"
  by simp

lemma min_nine:
  fixes p :: nat
  shows "1 + min (1 + min p (min q r)) (min (1 + min s (min t u)) (1 + min v (min w z)))
       = 1 + min (1 + min p (min s v)) (min (1 + min q (min t w)) (1 + min r (min u z)))"
  by (simp only: plus_min min.assoc min.commute min.left_commute)

lemma lev_snoc:
  "lev (xs @ [x]) (ys @ [y]) =
     (if x = y then lev xs ys
      else 1 + min (lev xs ys) (min (lev xs (ys @ [y])) (lev (xs @ [x]) ys)))"
proof (induction xs ys rule: lev.induct)
  case (1 ys)
  show ?case using lev_single_snoc [of x ys y] by simp
next
  case (2 v va)
  show ?case using lev_snoc_single [of "v # va" x y] by simp
next
  case (3 a xs b ys)
  show ?case
  proof (cases "a = b")
    case True
    with 3(1) show ?thesis by simp
  next
    case False
    note ih1 = 3(2) [OF False] and ih2 = 3(3) [OF False] and ih3 = 3(4) [OF False]
    have lhs: "lev ((a # xs) @ [x]) ((b # ys) @ [y])
        = 1 + min (lev (xs @ [x]) (ys @ [y]))
                  (min (lev (xs @ [x]) ((b # ys) @ [y])) (lev ((a # xs) @ [x]) (ys @ [y])))"
      using False by simp
    show ?thesis
    proof (cases "x = y")
      case True
      with False show ?thesis
        unfolding lhs ih1 ih2 ih3 by simp
    next
      case xy: False
      have e1: "lev (a # xs) (b # ys) = 1 + min (lev xs ys) (min (lev xs (b # ys)) (lev (a # xs) ys))"
        using False by simp
      have e2: "lev (a # xs) ((b # ys) @ [y])
          = 1 + min (lev xs (ys @ [y])) (min (lev xs ((b # ys) @ [y])) (lev (a # xs) (ys @ [y])))"
        using False by simp
      have e3: "lev ((a # xs) @ [x]) (b # ys)
          = 1 + min (lev (xs @ [x]) ys) (min (lev (xs @ [x]) (b # ys)) (lev ((a # xs) @ [x]) ys))"
        using False by simp
      show ?thesis
        unfolding lhs ih1 ih2 ih3 e1 e2 e3 using xy
        by (simp only: if_False min_nine)
    qed
  qed
qed

section \<open>The matrix of levenshteinDistance\<close>

lemma init_rows_eq: "init_rows i n m = m @ map (\<lambda>i'. [i']) [i..<Suc n]"
proof (induction i n m rule: init_rows.induct)
  case (1 i n m)
  show ?case
  proof (cases "i \<le> n")
    case True
    then have "[i..<Suc n] = i # [Suc i..<Suc n]" by (simp add: upt_conv_Cons)
    with True 1 show ?thesis by (subst init_rows.simps) simp
  next
    case False
    then show ?thesis by (subst init_rows.simps) simp
  qed
qed

lemma init_first_row_eq:
  assumes "m \<noteq> []" and "m ! 0 = [0..<j]" and "0 < j" and "j \<le> Suc n"
  shows "init_first_row j n m = m[0 := [0..<Suc n]]"
  using assms
proof (induction j n m rule: init_first_row.induct)
  case (1 j n m)
  show ?case
  proof (cases "j \<le> n")
    case True
    have sc: "set_cell m 0 j j = m[0 := [0..<Suc j]]"
      using 1(3) by (simp add: set_cell_def)
    have "init_first_row (j + 1) n (set_cell m 0 j j) = (set_cell m 0 j j)[0 := [0..<Suc n]]"
      using True 1(2,4) by (intro 1(1)) (simp_all add: sc)
    with True show ?thesis by (subst init_first_row.simps) (simp add: sc)
  next
    case False
    with 1(5) have "j = Suc n" by simp
    with 1(3) have "m[0 := [0..<Suc n]] = m"
      using list_update_id [of m 0] by simp
    with False show ?thesis
      by (subst init_first_row.simps) simp
  qed
qed


lemma prefix_distance_0_left: "j \<le> length str1 \<Longrightarrow> prefix_distance str1 str2 0 j = j"
  by (simp add: prefix_distance_def lev_Nil2)

lemma prefix_distance_0_right: "i \<le> length str2 \<Longrightarrow> prefix_distance str1 str2 i 0 = i"
  by (simp add: prefix_distance_def)

lemma prefix_distance_step:
  assumes "0 < i" and "i \<le> length str2" and "0 < j" and "j \<le> length str1"
  shows "prefix_distance str1 str2 i j =
           (if str2 ! (i - 1) = str1 ! (j - 1) then prefix_distance str1 str2 (i - 1) (j - 1)
            else min (min (prefix_distance str1 str2 (i - 1) (j - 1) + 1) (prefix_distance str1 str2 i (j - 1) + 1))
                     (prefix_distance str1 str2 (i - 1) j + 1))"
proof -
  from assms obtain i' j' where ij: "i = Suc i'" "j = Suc j'" "i' < length str2" "j' < length str1"
    by (cases i; cases j) auto
  have t1: "take j str1 = take j' str1 @ [str1 ! j']"
    using ij by (simp add: take_Suc_conv_app_nth)
  have t2: "take i str2 = take i' str2 @ [str2 ! i']"
    using ij by (simp add: take_Suc_conv_app_nth)
  have "prefix_distance str1 str2 i j = lev (take j' str1 @ [str1 ! j']) (take i' str2 @ [str2 ! i'])"
    by (simp only: prefix_distance_def t1 t2)
  also have "\<dots> = (if str1 ! j' = str2 ! i' then lev (take j' str1) (take i' str2)
      else 1 + min (lev (take j' str1) (take i' str2))
                   (min (lev (take j' str1) (take i' str2 @ [str2 ! i']))
                        (lev (take j' str1 @ [str1 ! j']) (take i' str2))))"
    by (rule lev_snoc)
  also have "\<dots> = (if str2 ! i' = str1 ! j' then prefix_distance str1 str2 i' j'
      else min (min (prefix_distance str1 str2 i' j' + 1) (prefix_distance str1 str2 i j' + 1)) (prefix_distance str1 str2 i' j + 1))"
    by (simp add: prefix_distance_def t1 [symmetric] t2 [symmetric] eq_commute [of "str1 ! j'"] min.assoc)
  finally show ?thesis using ij by simp
qed

lemma length_dp_table: "i \<le> Suc (length str2) \<Longrightarrow> length (dp_table str1 str2 i) = Suc (length str2)"
  by (simp add: dp_table_def)

lemma dp_table_nth_done: "i' < i \<Longrightarrow> i \<le> Suc (length str2) \<Longrightarrow> dp_table str1 str2 i ! i' = dp_row str1 str2 i'"
  by (simp add: dp_table_def nth_append)

lemma dp_table_nth_todo:
  "i \<le> i' \<Longrightarrow> i' \<le> length str2 \<Longrightarrow> dp_table str1 str2 i ! i' = [i']"
  using nth_upt [of i "i' - i" "Suc (length str2)"]
  by (simp add: dp_table_def nth_append del: upt_Suc)

lemma dp_table_Suc:
  assumes "i \<le> length str2"
  shows "dp_table str1 str2 (Suc i) = (dp_table str1 str2 i)[i := dp_row str1 str2 i]"
proof -
  have "[i..<Suc (length str2)] = i # [Suc i..<Suc (length str2)]"
    using assms by (simp add: upt_conv_Cons)
  then show ?thesis
    by (simp add: dp_table_def list_update_append)
qed

lemma dp_partial_start:
  assumes "i \<le> length str2"
  shows "dp_partial str1 str2 i (Suc 0) = dp_table str1 str2 i"
proof -
  have "dp_table str1 str2 i ! i = [i]" using assms by (simp add: dp_table_nth_todo)
  then have "(dp_table str1 str2 i)[i := [prefix_distance str1 str2 i 0]] = dp_table str1 str2 i"
    using list_update_id [of "dp_table str1 str2 i" i] assms by (simp add: prefix_distance_0_right)
  then show ?thesis by (simp add: dp_partial_def)
qed

lemma dp_partial_end:
  assumes "i \<le> length str2"
  shows "dp_partial str1 str2 i (Suc (length str1)) = dp_table str1 str2 (Suc i)"
  using assms by (simp add: dp_partial_def dp_table_Suc dp_row_def)

lemma dp_partial_nth_row:
  "i \<le> length str2 \<Longrightarrow> dp_partial str1 str2 i j ! i = map (prefix_distance str1 str2 i) [0..<j]"
  by (simp add: dp_partial_def length_dp_table)

lemma dp_partial_nth_prev:
  "0 < i \<Longrightarrow> i \<le> length str2 \<Longrightarrow> dp_partial str1 str2 i j ! (i - 1) = dp_row str1 str2 (i - 1)"
  by (simp add: dp_partial_def dp_table_nth_done)

lemma cell_value_partial:
  assumes "0 < i" and "i \<le> length str2" and "0 < j" and "j \<le> length str1"
  shows "cell_value str1 str2 (dp_partial str1 str2 i j) i j = prefix_distance str1 str2 i j"
proof -
  have prev: "dp_partial str1 str2 i j ! (i - 1) ! (j - 1) = prefix_distance str1 str2 (i - 1) (j - 1)"
    "dp_partial str1 str2 i j ! (i - 1) ! j = prefix_distance str1 str2 (i - 1) j"
    using assms by (simp_all add: dp_partial_nth_prev dp_row_def nth_map_upt del: upt_Suc One_nat_def)
  have cur: "dp_partial str1 str2 i j ! i ! (j - 1) = prefix_distance str1 str2 i (j - 1)"
    using assms by (simp add: dp_partial_nth_row del: One_nat_def)
  show ?thesis
    unfolding cell_value_def prev cur prefix_distance_step [OF assms] ..
qed

lemma set_cell_partial:
  assumes "0 < i" and "i \<le> length str2" and "0 < j" and "j \<le> length str1"
  shows "set_cell (dp_partial str1 str2 i j) i j (cell_value str1 str2 (dp_partial str1 str2 i j) i j)
           = dp_partial str1 str2 i (Suc j)"
proof -
  have "set_cell (dp_partial str1 str2 i j) i j (prefix_distance str1 str2 i j)
          = (dp_partial str1 str2 i j)[i := map (prefix_distance str1 str2 i) [0..<j] @ [prefix_distance str1 str2 i j]]"
    using assms by (simp add: set_cell_def dp_partial_nth_row)
  also have "\<dots> = dp_partial str1 str2 i (Suc j)"
    by (simp add: dp_partial_def)
  finally show ?thesis
    by (simp only: cell_value_partial [OF assms])
qed

lemma fill_row_partial:
  assumes "0 < i" and "i \<le> length str2" and "0 < j" and "j \<le> Suc (length str1)"
    and "m = dp_partial str1 str2 i j"
  shows "fill_row str1 str2 i j m = dp_table str1 str2 (Suc i)"
  using assms
proof (induction str1 str2 i j m rule: fill_row.induct)
  case (1 str1 str2 i j m)
  show ?case
  proof (cases "j \<le> length str1")
    case True
    have "set_cell m i j (cell_value str1 str2 m i j) = dp_partial str1 str2 i (Suc j)"
      using 1(2,3,4,6) True by (simp add: set_cell_partial)
    then have "fill_row str1 str2 i (j + 1) (set_cell m i j (cell_value str1 str2 m i j))
                 = dp_table str1 str2 (Suc i)"
      using True 1(2,3) by (intro 1(1)) simp_all
    with True show ?thesis by (subst fill_row.simps) simp
  next
    case False
    with 1(5) have "j = Suc (length str1)" by simp
    with False 1(3,6) show ?thesis
      by (subst fill_row.simps) (simp add: dp_partial_end)
  qed
qed

lemma fill_rows_table:
  assumes "0 < i" and "i \<le> Suc (length str2)" and "m = dp_table str1 str2 i"
  shows "fill_rows str1 str2 i m = dp_table str1 str2 (Suc (length str2))"
  using assms
proof (induction str1 str2 i m rule: fill_rows.induct)
  case (1 str1 str2 i m)
  show ?case
  proof (cases "i \<le> length str2")
    case True
    have "fill_row str1 str2 i 1 m = dp_table str1 str2 (Suc i)"
      using 1(2,4) True by (intro fill_row_partial) (simp_all add: dp_partial_start)
    then have "fill_rows str1 str2 (i + 1) (fill_row str1 str2 i 1 m)
                 = dp_table str1 str2 (Suc (length str2))"
      using True by (intro 1(1)) simp_all
    with True show ?thesis by (subst fill_rows.simps) simp
  next
    case False
    with 1(3) have "i = Suc (length str2)" by simp
    with False 1(4) show ?thesis by (subst fill_rows.simps) simp
  qed
qed

lemma initialised_table:
  "init_first_row 0 (length str1) (init_rows 0 (length str2) []) = dp_table str1 str2 1"
proof -
  let ?m0 = "map (\<lambda>i'. [i']) [0..<Suc (length str2)]"
  have m0: "init_rows 0 (length str2) [] = ?m0" by (simp add: init_rows_eq)
  have hd: "?m0 ! 0 = [0]" by (simp add: upt_conv_Cons del: upt_Suc)
  have ne: "?m0 \<noteq> []" by simp
  have "set_cell ?m0 0 0 0 = ?m0"
    using list_update_id [of ?m0 0] hd by (simp add: set_cell_def del: upt_Suc)
  then have "init_first_row 0 (length str1) ?m0 = init_first_row 1 (length str1) ?m0"
    by (subst init_first_row.simps) simp
  also have "\<dots> = ?m0[0 := [0..<Suc (length str1)]]"
    using hd by (intro init_first_row_eq ne) simp_all
  also have "\<dots> = dp_table str1 str2 1"
  proof -
    have "[0..<Suc (length str2)] = 0 # [Suc 0..<Suc (length str2)]"
      by (rule upt_conv_Cons) simp
    moreover have "dp_row str1 str2 0 = [0..<Suc (length str1)]"
      by (simp add: dp_row_def list_eq_iff_nth_eq prefix_distance_0_left nth_map_upt del: upt_Suc)
    moreover have "[0..<Suc 0] = [0]" by simp
    ultimately show ?thesis by (simp add: dp_table_def del: upt_Suc)
  qed
  finally show ?thesis by (simp only: m0)
qed

lemma levenshteinDistance_lev: "levenshteinDistance str1 str2 = lev str1 str2"
proof -
  have "fill_rows str1 str2 1 (init_first_row 0 (length str1) (init_rows 0 (length str2) []))
          = dp_table str1 str2 (Suc (length str2))"
    by (intro fill_rows_table) (simp_all add: initialised_table)
  then have "levenshteinDistance str1 str2
               = dp_table str1 str2 (Suc (length str2)) ! length str2 ! length str1"
    by (simp add: levenshteinDistance_def Let_def)
  also have "\<dots> = prefix_distance str1 str2 (length str2) (length str1)"
    by (simp add: dp_table_nth_done dp_row_def nth_map_upt del: upt_Suc)
  finally show ?thesis by (simp add: prefix_distance_def)
qed

section \<open>The relevance score\<close>

lemma string_includes_sublist: "string_includes s searchString \<longleftrightarrow> sublist searchString s"
  by (induction s) (simp_all add: sublist_Cons_right)

lemma calculateStringSimilarity_normalized:
  "calculateStringSimilarity a b = normalizedStringSimilarity a b"
proof (cases "length a > length b")
  case True
  then have m: "max (length a) (length b) = length a" and pos: "0 < length a" by auto
  have "calculateStringSimilarity a b = (real (length a) - real (lev a b)) / real (length a)"
    using True pos by (simp add: calculateStringSimilarity_def Let_def levenshteinDistance_lev)
  also have "\<dots> = 1 - real (lev a b) / real (length a)"
    using pos by (simp add: diff_divide_distrib)
  finally show ?thesis
    using pos by (simp add: normalizedStringSimilarity_def m)
next
  case False
  then have m: "max (length a) (length b) = length b" by simp
  show ?thesis
  proof (cases "length b = 0")
    case True
    with False show ?thesis
      by (simp add: calculateStringSimilarity_def normalizedStringSimilarity_def)
  next
    case nz: False
    have "calculateStringSimilarity a b = (real (length b) - real (lev b a)) / real (length b)"
      using False nz by (simp add: calculateStringSimilarity_def Let_def levenshteinDistance_lev)
    also have "\<dots> = 1 - real (lev a b) / real (length b)"
      using nz by (simp add: diff_divide_distrib lev_sym [of b a])
    finally show ?thesis
      using nz by (simp add: normalizedStringSimilarity_def m)
  qed
qed

text \<open>
  The score for every input. A title that starts with the query contains it, so the
  second branch of the source takes every prefix match and the 60 points of its third
  branch are never given.
\<close>

lemma calculateRelevanceScore_branches:
  "calculateRelevanceScore query titleText descriptionText
     = min 100 (title_component (toLowerCase query) (toLowerCase titleText)
                + description_component (toLowerCase query) descriptionText
                + 40 * normalizedStringSimilarity (toLowerCase query) (toLowerCase titleText))"
proof -
  have "startsWith t q \<Longrightarrow> string_includes t q" for t q
    by (simp add: startsWith_def string_includes_sublist)
  then have title: "(if t = q then (0::real) + 100
                     else if string_includes t q then 0 + 80
                     else if startsWith t q then 0 + 60 else 0) = title_component q t" for t q
    by (auto simp: title_component_def string_includes_sublist)
  show ?thesis
    by (simp add: calculateRelevanceScore_def Let_def title description_component_def
        string_includes_sublist calculateStringSimilarity_normalized mult.commute)
qed

text \<open>
  C1, as the code has it. For every query and every matched entity whose lowercased title
  is not a proper prefix match of the lowercased query, the score is
  \<open>min(100, T + D + 40 * S)\<close>: \<open>T\<close> is 100 when the lowercased title equals the lowercased
  query and otherwise 80 when it contains it; \<open>D\<close> is 20 when the lowercased description
  (empty when absent) contains the lowercased query; \<open>S\<close> is the normalized similarity
  \<open>1 - levenshteinDistance / max(len1, len2)\<close> of the two lowercased strings. The sum is
  capped at 100.
\<close>

theorem calculateRelevanceScore_capped_sum:
  assumes "\<not> strict_prefix (toLowerCase query) (toLowerCase titleText)"
  shows "calculateRelevanceScore query titleText descriptionText
           = min 100
               ((if toLowerCase titleText = toLowerCase query then 100
                 else if sublist (toLowerCase query) (toLowerCase titleText) then 80 else 0)
                + (if sublist (toLowerCase query)
                        (case descriptionText of None \<Rightarrow> [] | Some d \<Rightarrow> toLowerCase d)
                   then 20 else 0)
                + 40 * (if max (length (toLowerCase query)) (length (toLowerCase titleText)) = 0
                        then 1
                        else 1 - real (lev (toLowerCase query) (toLowerCase titleText))
                                 / real (max (length (toLowerCase query))
                                             (length (toLowerCase titleText)))))"
  by (simp add: calculateRelevanceScore_branches title_component_def description_component_def
      normalizedStringSimilarity_def)

lemmas lower_eval = toLowerCase_def lower_char_def

theorem calculateRelevanceScore_capped_sum_witness:
  "\<not> strict_prefix (toLowerCase ''sun'') (toLowerCase ''Moon'')
   \<and> calculateRelevanceScore ''sun'' ''Moon'' None = 10
   \<and> \<not> strict_prefix (toLowerCase ''moon'') (toLowerCase ''Blue Moon'')
   \<and> calculateRelevanceScore ''moon'' ''Blue Moon'' (Some ''The MOON rises'') = 100"
proof -
  have l1: "toLowerCase ''sun'' = ''sun''" "toLowerCase ''Moon'' = ''moon''"
    "toLowerCase ''moon'' = ''moon''" "toLowerCase ''Blue Moon'' = ''blue moon''"
    "toLowerCase ''The MOON rises'' = ''the moon rises''"
    by (simp_all add: lower_eval)
  have p1: "\<not> strict_prefix (toLowerCase ''sun'') (toLowerCase ''Moon'')"
    by (simp add: l1)
  have p2: "\<not> strict_prefix (toLowerCase ''moon'') (toLowerCase ''Blue Moon'')"
    by (simp add: l1)
  have s1: "\<not> sublist ''sun'' ''moon''" "sublist ''moon'' ''blue moon''"
    "sublist ''moon'' ''the moon rises''"
    by (simp_all add: string_includes_sublist [symmetric])
  have d1: "lev ''sun'' ''moon'' = 3" by simp
  have d2: "lev ''moon'' ''blue moon'' = 5" by simp
  from calculateRelevanceScore_capped_sum [OF p1, of None]
  have r1: "calculateRelevanceScore ''sun'' ''Moon'' None = 10"
    by (simp add: l1 s1 d1)
  from calculateRelevanceScore_capped_sum [OF p2, of "Some ''The MOON rises''"]
  have r2: "calculateRelevanceScore ''moon'' ''Blue Moon'' (Some ''The MOON rises'') = 100"
    by (simp add: l1 s1 d2)
  from p1 r1 p2 r2 show ?thesis by blast
qed

text \<open>
  The sentence as claimed fails twice. The total is not the plain sum: an exact match
  scores 100, not 140. And a proper prefix match does not get the 60 points: the query
  \<open>a\<close> against the title \<open>abcdefghij\<close> scores 84, which is 80 plus 4 for the
  similarity, where the sum with the prefix component is 64.
\<close>

theorem relevance_plain_sum_counterexample:
  "calculateRelevanceScore ''ab'' ''ab'' None = 100
   \<and> relevance_sum ''ab'' ''ab'' None = 140
   \<and> strict_prefix (toLowerCase ''a'') (toLowerCase ''abcdefghij'')
   \<and> calculateRelevanceScore ''a'' ''abcdefghij'' None = 84
   \<and> relevance_sum ''a'' ''abcdefghij'' None = 64"
proof -
  have l: "toLowerCase ''ab'' = ''ab''" "toLowerCase ''a'' = ''a''"
    "toLowerCase ''abcdefghij'' = ''abcdefghij''"
    by (simp_all add: lower_eval)
  have s: "sublist ''a'' ''abcdefghij''"
    by (simp add: string_includes_sublist [symmetric])
  have d: "lev ''ab'' ''ab'' = 0" "lev ''a'' ''abcdefghij'' = 9" by simp_all
  have c1: "calculateRelevanceScore ''ab'' ''ab'' None = 100"
    by (simp add: calculateRelevanceScore_branches l title_component_def
        description_component_def normalizedStringSimilarity_def d)
  have c2: "relevance_sum ''ab'' ''ab'' None = 140"
    by (simp add: relevance_sum_def Let_def l description_component_def
        normalizedStringSimilarity_def d)
  have c3: "strict_prefix (toLowerCase ''a'') (toLowerCase ''abcdefghij'')"
    by (simp add: l)
  have c4: "calculateRelevanceScore ''a'' ''abcdefghij'' None = 84"
    by (simp add: calculateRelevanceScore_branches l s title_component_def
        description_component_def normalizedStringSimilarity_def d)
  have c5: "relevance_sum ''a'' ''abcdefghij'' None = 64"
    by (simp add: relevance_sum_def Let_def l description_component_def
        normalizedStringSimilarity_def d)
  from c1 c2 c3 c4 c5 show ?thesis by blast
qed

end
